theory Spec2Isabelle
  imports Complex_Main "HOL-Library.AList" "HOL-Library.Multiset" "HOL-Library.Sublist"
begin

section \<open>Strings\<close>

text \<open>
  A JavaScript string is a sequence of UTF-16 code units. The embedding uses
  \<^typ>\<open>string\<close>: one \<^typ>\<open>char\<close> stands for one code unit in the range 0..255.
  Within that range the white space that \<^verbatim>\<open>String.prototype.trim\<close> strips
  (ECMAScript WhiteSpace and LineTerminator) is TAB, LF, VT, FF, CR, SP and NBSP.
\<close>

definition isWhiteSpace :: "char \<Rightarrow> bool" where
  "isWhiteSpace c \<longleftrightarrow>
     c = CHR 0x09 \<or> c = CHR 0x0A \<or> c = CHR 0x0B \<or> c = CHR 0x0C \<or> c = CHR 0x0D \<or>
     c = CHR 0x20 \<or> c = CHR 0xA0"

definition trim :: "string \<Rightarrow> string" where
  "trim s = rev (dropWhile isWhiteSpace (rev (dropWhile isWhiteSpace s)))"

abbreviation dquote :: char where
  "dquote \<equiv> CHR 0x22"

section \<open>csvService.js: the line tokenizer\<close>

text \<open>
  \<^verbatim>\<open>parseCSVLine\<close> (csvService.js, lines 86-120). The \<^verbatim>\<open>while (i < line.length)\<close>
  loop is the recursive function \<open>parseCSVLine_loop\<close> over the loop's variables
  \<open>i\<close>, \<open>result\<close>, \<open>current\<close> and \<open>inQuotes\<close>. The look-ahead
  \<^verbatim>\<open>line[i + 1]\<close> past the end of the line is \<^verbatim>\<open>undefined\<close>, which is not a
  quote.
\<close>

function parseCSVLine_loop :: "string \<Rightarrow> nat \<Rightarrow> string list \<Rightarrow> string \<Rightarrow> bool \<Rightarrow> string list" where
  "parseCSVLine_loop line i result current inQuotes =
     (if i < length line then
        (if line ! i = dquote then
           (if inQuotes \<and> i + 1 < length line \<and> line ! (i + 1) = dquote
            then parseCSVLine_loop line (i + 2) result (current @ [dquote]) inQuotes
            else parseCSVLine_loop line (i + 1) result current (\<not> inQuotes))
         else if line ! i = CHR '','' \<and> \<not> inQuotes
         then parseCSVLine_loop line (i + 1) (result @ [trim current]) [] inQuotes
         else parseCSVLine_loop line (i + 1) result (current @ [line ! i]) inQuotes)
      else result @ [trim current])"
  by pat_completeness auto
termination
  by (relation "measure (\<lambda>(line, i, result, current, inQuotes). length line - i)") auto

declare parseCSVLine_loop.simps [simp del]

definition parseCSVLine :: "string \<Rightarrow> string list" where
  "parseCSVLine line = parseCSVLine_loop line 0 [] [] False"

text \<open>
  \<^verbatim>\<open>splitLines\<close> (lines 79-81): \<^verbatim>\<open>content.split(/\r?\n/)\<close>. The pattern is matched
  from left to right, so a CR directly before an LF belongs to the separator and any
  other CR stays in its line. Blank lines are kept: nothing is filtered here.
\<close>

fun splitLines_from :: "string \<Rightarrow> string \<Rightarrow> string list" where
  "splitLines_from current [] = [current]"
| "splitLines_from current (c # cs) =
     (if c = CHR 0x0A then current # splitLines_from [] cs
      else (case cs of
              d # ds \<Rightarrow>
                if c = CHR 0x0D \<and> d = CHR 0x0A then current # splitLines_from [] ds
                else splitLines_from (current @ [c]) cs
            | [] \<Rightarrow> splitLines_from (current @ [c]) cs))"

definition splitLines :: "string \<Rightarrow> string list" where
  "splitLines content = splitLines_from [] content"

section \<open>JavaScript values\<close>

text \<open>
  Numbers are IEEE doubles. The embedding keeps a finite non-zero or positive-zero double as
  the rational it denotes and names the other doubles. The conversions between strings and
  numbers (\<^verbatim>\<open>Number(s)\<close>, number to string) are built-ins of the language; the functions
  below take them as parameters (\<open>Number\<close>, \<open>numToString\<close>), so every theorem holds
  for whatever these built-ins compute.
\<close>

datatype jsnum = NaN | Num rat | NegZero | PosInfinity | NegInfinity

text \<open>
  A Record is a plain object: its own properties, in the order the language enumerates
  them, as an association list. A missing property (\<^verbatim>\<open>undefined\<close>) is \<^const>\<open>None\<close> of
  \<^const>\<open>map_of\<close>.
\<close>

datatype jsval = JNull | JString string | JNumber jsnum | JObject "(string \<times> jsval) list"

type_synonym props = "(string \<times> jsval) list"

text \<open>Truthiness (ToBoolean), as \<^verbatim>\<open>||\<close> and \<^verbatim>\<open>? :\<close> test it.\<close>

fun truthy :: "jsval \<Rightarrow> bool" where
  "truthy JNull = False"
| "truthy (JString s) = (s \<noteq> [])"
| "truthy (JNumber n) = (n \<noteq> NaN \<and> n \<noteq> Num 0 \<and> n \<noteq> NegZero)"
| "truthy (JObject ps) = True"

datatype error =
    AtLeastHeaderAndOneDataRow
      \<comment> \<open>\<^verbatim>\<open>'CSV file must contain at least a header row and one data row'\<close>
          (the spec's EmptyOrHeaderOnlyFile)\<close>
  | MissingRequiredHeaders "string list"
      \<comment> \<open>\<^verbatim>\<open>`Missing required headers: ${missingHeaders.join(', ')}`\<close>\<close>
  | HeaderCountMismatch nat nat
      \<comment> \<open>\<^verbatim>\<open>`Header count (${headers.length}) doesn't match value count (${values.length})`\<close>
          (the spec's SchemaMismatch)\<close>
  | TypeError
      \<comment> \<open>thrown by the language: an object that cannot be converted to a string, an
          assignment to the prototype of \<^verbatim>\<open>Object.prototype\<close>\<close>
  | QueryError
      \<comment> \<open>thrown by \<^verbatim>\<open>db.query\<close> when the store rejects a statement\<close>

section \<open>Objects and \<^verbatim>\<open>Object.prototype\<close>\<close>

text \<open>
  The values \<^verbatim>\<open>convertToJSON\<close> assigns are strings, numbers and \<^verbatim>\<open>null\<close>.
\<close>

datatype scalar = SNull | SString string | SNumber jsnum

fun jsval_of :: "scalar \<Rightarrow> jsval" where
  "jsval_of SNull = JNull"
| "jsval_of (SString s) = JString s"
| "jsval_of (SNumber n) = JNumber n"

text \<open>
  The order of the own properties of an object (OrdinaryOwnPropertyKeys): first the keys
  that are array indices, by ascending value, then the other keys, in the order of their
  creation. An array index is the canonical decimal numeral of an integer below
  \<open>2\<^sup>3\<^sup>2 - 1\<close>. \<open>js_put\<close> is the assignment \<^verbatim>\<open>o[k] = v\<close> to an own data property:
  it overwrites in place or creates the property at its place in that order.
\<close>

definition digit_value :: "char \<Rightarrow> int option" where
  "digit_value c = map_of (zip ''0123456789'' [0, 1, 2, 3, 4, 5, 6, 7, 8, 9]) c"

fun decimal_value :: "string \<Rightarrow> int \<Rightarrow> int option" where
  "decimal_value [] n = Some n"
| "decimal_value (c # cs) n =
     (case digit_value c of None \<Rightarrow> None | Some d \<Rightarrow> decimal_value cs (10 * n + d))"

definition array_index :: "string \<Rightarrow> int option" where
  "array_index key =
     (case key of
        [] \<Rightarrow> None
      | c # cs \<Rightarrow>
          if c = CHR ''0'' \<and> cs \<noteq> [] then None
          else (case decimal_value key 0 of
                  None \<Rightarrow> None
                | Some n \<Rightarrow> if n < 4294967295 then Some n else None))"

fun insert_index :: "int \<Rightarrow> string \<Rightarrow> jsval \<Rightarrow> props \<Rightarrow> props" where
  "insert_index n key v [] = [(key, v)]"
| "insert_index n key v ((k, u) # ps) =
     (case array_index k of
        Some m \<Rightarrow> if m < n then (k, u) # insert_index n key v ps else (key, v) # (k, u) # ps
      | None \<Rightarrow> (key, v) # (k, u) # ps)"

definition js_put :: "string \<Rightarrow> jsval \<Rightarrow> props \<Rightarrow> props" where
  "js_put key v ps =
     (case array_index key of
        Some n \<Rightarrow> if map_of ps key = None then insert_index n key v ps else AList.update key v ps
      | None \<Rightarrow> AList.update key v ps)"

text \<open>
  Every object the mapper builds is an ordinary object whose prototype is
  \<^verbatim>\<open>Object.prototype\<close>, and \<^verbatim>\<open>setNestedProperty\<close> has no guard on the keys of a path: the
  key \<^verbatim>\<open>__proto__\<close> leads the walk into \<^verbatim>\<open>Object.prototype\<close>, the one object every other
  object inherits from. The state of a call is therefore a \<open>world\<close>: the own properties of
  the object the call is given (\<open>target\<close>), the data properties the program has written
  onto \<^verbatim>\<open>Object.prototype\<close> (\<open>object_prototype\<close>, empty when the process starts), and the
  objects whose prototype has been set to \<^verbatim>\<open>null\<close> (\<open>null_prototype\<close>). An object is
  named by its \<open>location\<close>: the root it hangs from and the keys that lead to it. The
  records a parse returns are the own properties of the objects it has built; the projection
  of userService.js reads them as such, that is, as they read in a process where nothing has
  been written onto \<^verbatim>\<open>Object.prototype\<close>.
\<close>

datatype root = Target | ObjectPrototype

type_synonym location = "root \<times> string list"

record world =
  target :: props
  object_prototype :: props
  null_prototype :: "location list"

definition pristine :: world where
  "pristine = \<lparr>target = [], object_prototype = [], null_prototype = []\<rparr>"

fun props_at :: "props \<Rightarrow> string list \<Rightarrow> props option" where
  "props_at ps [] = Some ps"
| "props_at ps (key # keys) =
     (case map_of ps key of Some (JObject child) \<Rightarrow> props_at child keys | _ \<Rightarrow> None)"

fun modify_at :: "(props \<Rightarrow> props) \<Rightarrow> props \<Rightarrow> string list \<Rightarrow> props" where
  "modify_at f ps [] = f ps"
| "modify_at f ps (key # keys) =
     (case map_of ps key of
        Some (JObject child) \<Rightarrow> AList.update key (JObject (modify_at f child keys)) ps
      | _ \<Rightarrow> ps)"

definition root_props :: "world \<Rightarrow> root \<Rightarrow> props" where
  "root_props w r = (case r of Target \<Rightarrow> target w | ObjectPrototype \<Rightarrow> object_prototype w)"

text \<open>The own properties of the object at a location (a location the walk reaches holds one).\<close>

definition own_props :: "world \<Rightarrow> location \<Rightarrow> props" where
  "own_props w loc =
     (case props_at (root_props w (fst loc)) (snd loc) of Some ps \<Rightarrow> ps | None \<Rightarrow> [])"

text \<open>
  \<^verbatim>\<open>current[key]\<close> ([[Get]]), with the place the property was found. The own properties of
  \<^verbatim>\<open>Object.prototype\<close> are its built-in functions, the accessor \<^verbatim>\<open>__proto__\<close> (whose getter
  returns the prototype of the object it is read on) and what the program has written.
  An object with a \<^verbatim>\<open>null\<close> prototype inherits nothing, not even the accessor.
\<close>

definition builtin_functions :: "string list" where
  "builtin_functions =
     [''constructor'', ''__defineGetter__'', ''__defineSetter__'', ''hasOwnProperty'',
      ''__lookupGetter__'', ''__lookupSetter__'', ''isPrototypeOf'', ''propertyIsEnumerable'',
      ''toString'', ''valueOf'', ''toLocaleString'']"

datatype property =
    Undefined
  | BuiltinFunction
  | Own jsval
  | Inherited jsval
  | PrototypeOf "location option"
      \<comment> \<open>the value of the accessor \<^verbatim>\<open>__proto__\<close>: an object, or \<^verbatim>\<open>null\<close>\<close>

definition get_property :: "world \<Rightarrow> location \<Rightarrow> string \<Rightarrow> property" where
  "get_property w loc key =
     (case map_of (own_props w loc) key of
        Some v \<Rightarrow> Own v
      | None \<Rightarrow>
          if loc = (ObjectPrototype, []) then
            (if key = ''__proto__'' then PrototypeOf None
             else if key \<in> set builtin_functions then BuiltinFunction
             else Undefined)
          else if loc \<in> set (null_prototype w) then Undefined
          else if key = ''__proto__'' then PrototypeOf (Some (ObjectPrototype, []))
          else (case map_of (object_prototype w) key of
                  Some v \<Rightarrow> Inherited v
                | None \<Rightarrow> if key \<in> set builtin_functions then BuiltinFunction else Undefined))"

text \<open>
  \<^verbatim>\<open>current[key] = v\<close> where the assignment defines or overwrites an own data property of
  \<^verbatim>\<open>current\<close>: the key is an own property, or it is missing, or it is inherited as a
  (writable) data property. What hung below an overwritten property is gone.
\<close>

definition define_own :: "world \<Rightarrow> location \<Rightarrow> string \<Rightarrow> jsval \<Rightarrow> world" where
  "define_own w loc key v =
     (let below = (\<lambda>l. fst l = fst loc \<and> prefix (snd loc @ [key]) (snd l));
          nulls = filter (\<lambda>l. \<not> below l) (null_prototype w)
      in case fst loc of
           Target \<Rightarrow>
             w\<lparr>target := modify_at (js_put key v) (target w) (snd loc), null_prototype := nulls\<rparr>
         | ObjectPrototype \<Rightarrow>
             w\<lparr>object_prototype := modify_at (js_put key v) (object_prototype w) (snd loc),
               null_prototype := nulls\<rparr>)"

section \<open>csvService.js: the record mapper\<close>

text \<open>\<^verbatim>\<open>path.split('.')\<close>: there is always at least one segment.\<close>

fun split_from :: "char \<Rightarrow> string \<Rightarrow> string \<Rightarrow> string list" where
  "split_from sep current [] = [current]"
| "split_from sep current (c # cs) =
     (if c = sep then current # split_from sep [] cs else split_from sep (current @ [c]) cs)"

definition js_split :: "string \<Rightarrow> char \<Rightarrow> string list" where
  "js_split s sep = split_from sep [] s"

text \<open>
  \<^verbatim>\<open>setNestedProperty\<close> (lines 175-188). \<open>descend\<close> is one round of the loop (lines
  179-185), from \<^verbatim>\<open>current\<close> to the next \<^verbatim>\<open>current\<close>:

    \<^item> \<^verbatim>\<open>current[key]\<close> is an object, own or inherited: no assignment, the walk moves into
      it. For \<^verbatim>\<open>__proto__\<close> read through the accessor it is \<^verbatim>\<open>Object.prototype\<close>.
    \<^item> \<^verbatim>\<open>current\<close> is \<^verbatim>\<open>Object.prototype\<close> and the key is \<^verbatim>\<open>__proto__\<close>: the getter returns
      \<^verbatim>\<open>null\<close>, so \<^verbatim>\<open>current[key] = {}\<close> runs; the setter refuses to change the prototype of
      \<^verbatim>\<open>Object.prototype\<close> and throws a TypeError.
    \<^item> otherwise the key is missing or its value is not an object (a function, a string, a
      number, \<^verbatim>\<open>null\<close>): \<^verbatim>\<open>current[key] = {}\<close> defines an own property and the walk moves
      into the new object.
\<close>

definition descend :: "world \<Rightarrow> location \<Rightarrow> string \<Rightarrow> (error + location) \<times> world" where
  "descend w current key =
     (case get_property w current key of
        Own (JObject child) \<Rightarrow> (Inr (fst current, snd current @ [key]), w)
      | Inherited (JObject child) \<Rightarrow> (Inr (ObjectPrototype, [key]), w)
      | PrototypeOf (Some prototype) \<Rightarrow> (Inr prototype, w)
      | PrototypeOf None \<Rightarrow> (Inl TypeError, w)
      | _ \<Rightarrow> (Inr (fst current, snd current @ [key]), define_own w current key (JObject [])))"

text \<open>
  The final assignment \<^verbatim>\<open>current[keys[keys.length - 1]] = value\<close> (line 187). When the key
  is \<^verbatim>\<open>__proto__\<close> and reaches the accessor, its setter runs: it ignores a string or a
  number; given \<^verbatim>\<open>null\<close> it sets the prototype of \<^verbatim>\<open>current\<close> to \<^verbatim>\<open>null\<close> (for
  \<^verbatim>\<open>Object.prototype\<close> that is the prototype it has already).
\<close>

definition assign :: "world \<Rightarrow> location \<Rightarrow> string \<Rightarrow> scalar \<Rightarrow> world" where
  "assign w current key v =
     (case get_property w current key of
        PrototypeOf prototype \<Rightarrow>
          if v = SNull \<and> prototype \<noteq> None
          then w\<lparr>null_prototype := current # null_prototype w\<rparr>
          else w
      | _ \<Rightarrow> define_own w current key (jsval_of v))"

text \<open>
  The loop. The result is the exception thrown, if any, and the world the call leaves.
  \<^verbatim>\<open>keys[keys.length - 1]\<close> of an empty array would be \<^verbatim>\<open>undefined\<close>; \<^verbatim>\<open>split\<close> never
  returns one.
\<close>

fun setNestedProperty_loop :: "world \<Rightarrow> location \<Rightarrow> string list \<Rightarrow> scalar \<Rightarrow> error option \<times> world" where
  "setNestedProperty_loop w current [] v = (None, assign w current ''undefined'' v)"
| "setNestedProperty_loop w current [key] v = (None, assign w current key v)"
| "setNestedProperty_loop w current (key # keys) v =
     (case descend w current key of
        (Inl e, w') \<Rightarrow> (Some e, w')
      | (Inr next, w') \<Rightarrow> setNestedProperty_loop w' next keys v)"

definition setNestedProperty :: "world \<Rightarrow> string \<Rightarrow> scalar \<Rightarrow> error option \<times> world" where
  "setNestedProperty w path v = setNestedProperty_loop w (Target, []) (js_split path CHR ''.'') v"

text \<open>
  \<^verbatim>\<open>parseNumber\<close> (lines 163-170). The values of a row are strings, so \<^verbatim>\<open>!value\<close> is
  the test for the empty string.
\<close>

definition parseNumber :: "(string \<Rightarrow> jsnum) \<Rightarrow> string \<Rightarrow> scalar" where
  "parseNumber Number v =
     (if v = [] \<or> trim v = [] then SNull
      else (let num = Number (trim v) in if num = NaN then SString v else SNumber num))"

text \<open>
  The test \<^verbatim>\<open>header === 'age' || /\.(age|id|count)$/i.test(header)\<close> (line 149). Without
  the \<^verbatim>\<open>m\<close> flag \<^verbatim>\<open>$\<close> is the end of the string. Under the \<^verbatim>\<open>i\<close> flag two code units match
  when their canonical forms agree; a code unit outside ASCII never matches an ASCII letter,
  so for this pattern the canonical form is the ASCII upper case.
\<close>

definition canonicalize :: "char \<Rightarrow> char" where
  "canonicalize c =
     (case map_of (zip ''abcdefghijklmnopqrstuvwxyz'' ''ABCDEFGHIJKLMNOPQRSTUVWXYZ'') c of
        Some upper \<Rightarrow> upper
      | None \<Rightarrow> c)"

definition endsWithIgnoreCase :: "string \<Rightarrow> string \<Rightarrow> bool" where
  "endsWithIgnoreCase s ending \<longleftrightarrow>
     length ending \<le> length s \<and>
     map canonicalize (drop (length s - length ending) s) = map canonicalize ending"

definition isNumericHeader :: "string \<Rightarrow> bool" where
  "isNumericHeader header \<longleftrightarrow>
     header = ''age'' \<or> endsWithIgnoreCase header ''.age'' \<or>
     endsWithIgnoreCase header ''.id'' \<or> endsWithIgnoreCase header ''.count''"

text \<open>
  \<^verbatim>\<open>convertToJSON\<close> (lines 137-158). \<open>coerce\<close> is the value the loop body hands to
  \<^verbatim>\<open>setNestedProperty\<close> (lines 145-151); \<open>convertToJSON_loop\<close> is the loop over the
  headers, on the pairs \<^verbatim>\<open>(headers[i], values[i])\<close>. \<^verbatim>\<open>result\<close> is a new object
  (line 142); what earlier calls have written onto \<^verbatim>\<open>Object.prototype\<close> stays.
\<close>

definition coerce :: "(string \<Rightarrow> jsnum) \<Rightarrow> string \<Rightarrow> string \<Rightarrow> scalar" where
  "coerce Number header v = (if isNumericHeader header then parseNumber Number v else SString v)"

fun convertToJSON_loop :: "(string \<Rightarrow> jsnum) \<Rightarrow> world \<Rightarrow> (string \<times> string) list \<Rightarrow> error option \<times> world" where
  "convertToJSON_loop Number w [] = (None, w)"
| "convertToJSON_loop Number w ((header, v) # rest) =
     (case setNestedProperty w header (coerce Number header v) of
        (Some e, w') \<Rightarrow> (Some e, w')
      | (None, w') \<Rightarrow> convertToJSON_loop Number w' rest)"

definition new_target :: "world \<Rightarrow> world" where
  "new_target w =
     w\<lparr>target := [], null_prototype := filter (\<lambda>l. fst l \<noteq> Target) (null_prototype w)\<rparr>"

definition convertToJSON :: "(string \<Rightarrow> jsnum) \<Rightarrow> world \<Rightarrow> string list \<Rightarrow> string list \<Rightarrow> (error + props) \<times> world" where
  "convertToJSON Number w headers vals =
     (if length headers \<noteq> length vals
      then (Inl (HeaderCountMismatch (length headers) (length vals)), w)
      else (case convertToJSON_loop Number (new_target w) (zip headers vals) of
              (Some e, w') \<Rightarrow> (Inl e, w')
            | (None, w') \<Rightarrow> (Inr (target w'), w')))"

text \<open>\<^verbatim>\<open>validateHeaders\<close> (lines 125-132).\<close>

definition requiredHeaders :: "string list" where
  "requiredHeaders = [''name.firstName'', ''name.lastName'', ''age'']"

definition validateHeaders :: "string list \<Rightarrow> error + unit" where
  "validateHeaders headers =
     (let missingHeaders = filter (\<lambda>header. header \<notin> set headers) requiredHeaders
      in if length missingHeaders > 0 then Inl (MissingRequiredHeaders missingHeaders) else Inr ())"

section \<open>csvService.js: the parse orchestrator\<close>

text \<open>
  \<^verbatim>\<open>parseCSVFile\<close> (lines 13-47), from the file's content on: \<^verbatim>\<open>validateFile\<close> and
  \<^verbatim>\<open>fs.readFile\<close> have returned. \<open>parseCSVFile_rows\<close> is the loop of lines 32-38 over
  \<^verbatim>\<open>lines[1..]\<close>; an exception of \<^verbatim>\<open>convertToJSON\<close> leaves the loop and the function.
  The world is the one the process is in when the parse starts, and the one it leaves.
\<close>

fun parseCSVFile_rows :: "(string \<Rightarrow> jsnum) \<Rightarrow> world \<Rightarrow> string list \<Rightarrow> string list \<Rightarrow> props list \<Rightarrow> (error + props list) \<times> world" where
  "parseCSVFile_rows Number w headers [] users = (Inr users, w)"
| "parseCSVFile_rows Number w headers (line # rest) users =
     (if trim line \<noteq> [] then
        (case convertToJSON Number w headers (parseCSVLine line) of
           (Inl e, w') \<Rightarrow> (Inl e, w')
         | (Inr user, w') \<Rightarrow> parseCSVFile_rows Number w' headers rest (users @ [user]))
      else parseCSVFile_rows Number w headers rest users)"

definition parseCSVFile :: "(string \<Rightarrow> jsnum) \<Rightarrow> world \<Rightarrow> string \<Rightarrow> (error + props list) \<times> world" where
  "parseCSVFile Number w fileContent =
     (let lines = splitLines fileContent in
      if length lines < 2 then (Inl AtLeastHeaderAndOneDataRow, w)
      else (let headers = parseCSVLine (lines ! 0) in
            case validateHeaders headers of
              Inl e \<Rightarrow> (Inl e, w)
            | Inr _ \<Rightarrow> parseCSVFile_rows Number w headers (drop 1 lines) []))"

section \<open>userService.js: the projection to a row\<close>

text \<open>
  \<^verbatim>\<open>JSON.stringify\<close> is a built-in; the text it produces is kept as the value it
  serialises.
\<close>

datatype json_text = JSON_stringify jsval

record persistable =
  name :: string
  age :: jsval
  address :: "json_text option"
  additionalInfo :: "json_text option"

text \<open>
  \<^verbatim>\<open>user.name?.firstName\<close>: the optional chain stops at \<^verbatim>\<open>undefined\<close> and \<^verbatim>\<open>null\<close>;
  a string or a number has no such property; an object is looked up.
\<close>

fun optionalMember :: "jsval option \<Rightarrow> string \<Rightarrow> jsval option" where
  "optionalMember (Some (JObject ps)) key = map_of ps key"
| "optionalMember _ key = None"

text \<open>\<^verbatim>\<open>x || d\<close>: \<open>d\<close> when \<open>x\<close> is missing or falsy.\<close>

fun orDefault :: "jsval option \<Rightarrow> jsval \<Rightarrow> jsval" where
  "orDefault (Some x) d = (if truthy x then x else d)"
| "orDefault None d = d"

text \<open>
  The conversion to string of a template literal. A plain object without an own
  \<^verbatim>\<open>toString\<close> property prints as \<^verbatim>\<open>[object Object]\<close>; with one (a Record holds data,
  nothing callable), neither \<^verbatim>\<open>toString\<close> nor \<^verbatim>\<open>valueOf\<close> yields a primitive and the
  conversion throws a TypeError.
\<close>

fun templateString :: "(jsnum \<Rightarrow> string) \<Rightarrow> jsval \<Rightarrow> error + string" where
  "templateString numToString (JString s) = Inr s"
| "templateString numToString (JNumber n) = Inr (numToString n)"
| "templateString numToString JNull = Inr ''null''"
| "templateString numToString (JObject ps) =
     (if map_of ps ''toString'' \<noteq> None then Inl TypeError else Inr ''[object Object]'')"

text \<open>\<^verbatim>\<open>prepareUserData\<close> (lines 62-89).\<close>

definition prepareUserData :: "(jsnum \<Rightarrow> string) \<Rightarrow> props \<Rightarrow> error + persistable" where
  "prepareUserData numToString user =
     (let firstName = orDefault (optionalMember (map_of user ''name'') ''firstName'') (JString []);
          lastName = orDefault (optionalMember (map_of user ''name'') ''lastName'') (JString [])
      in case templateString numToString firstName of
           Inl e \<Rightarrow> Inl e
         | Inr firstText \<Rightarrow>
            (case templateString numToString lastName of
               Inl e \<Rightarrow> Inl e
             | Inr lastText \<Rightarrow>
                (let additionalInfo' =
                       AList.delete ''address'' (AList.delete ''age'' (AList.delete ''name'' user))
                 in Inr \<lparr> name = trim (firstText @ '' '' @ lastText),
                          age = orDefault (map_of user ''age'') (JNumber (Num 0)),
                          address = (case map_of user ''address'' of
                                       Some a \<Rightarrow> if truthy a then Some (JSON_stringify a) else None
                                     | None \<Rightarrow> None),
                          additionalInfo = (if length additionalInfo' > 0
                                            then Some (JSON_stringify (JObject additionalInfo'))
                                            else None) \<rparr>)))"

section \<open>The store\<close>

text \<open>
  \<^verbatim>\<open>db.query\<close> (connection.js, lines 48-71) hands every statement to \<^verbatim>\<open>pool.query\<close>: the
  pool (20 clients at most) picks one of its clients, runs the statement on it and takes the
  client back. A transaction belongs to the client, that is the connection, it was begun
  on. Which client the pool picks depends on which clients are idle at that moment, and
  so on the other requests the server is handling; it is a parameter of the model:
  \<open>pool k\<close> is the client that serves the statement received after \<open>k\<close> others.

  The store holds the rows of table \<^verbatim>\<open>users\<close> that are committed, for every client with
  an open transaction the rows written in it, and the statements received so far, each
  with the client that served it. An INSERT on a client with no open transaction commits
  at once. An INSERT is rejected when it has no row (a syntax error) or when the fault
  oracle \<open>fails\<close> says so for its position in the sequence of statements; a rejected
  statement writes nothing. The three transaction statements succeed; COMMIT and ROLLBACK
  end the transaction of the client they are served by, if it has one. (A transaction in
  which a statement was rejected is not told apart from an open one: after a rejected
  statement \<^verbatim>\<open>batchInsertUsers\<close> sends ROLLBACK and nothing else.) The four parameters of
  a row are the four fields of \<^typ>\<open>persistable\<close>.
\<close>

datatype statement = BEGIN | INSERT "persistable list" | COMMIT | ROLLBACK

record database =
  committed :: "persistable list"
  transactions :: "(nat \<times> persistable list) list"
  issued :: "(nat \<times> statement) list"

fun db_query :: "(nat \<Rightarrow> bool) \<Rightarrow> (nat \<Rightarrow> nat) \<Rightarrow> database \<Rightarrow> statement \<Rightarrow> (error + nat) \<times> database" where
  "db_query fails pool db BEGIN =
     (let client = pool (length (issued db)) in
      (Inr 0,
       db\<lparr>transactions :=
             (case map_of (transactions db) client of
                None \<Rightarrow> AList.update client [] (transactions db)
              | Some written \<Rightarrow> transactions db),
          issued := issued db @ [(client, BEGIN)]\<rparr>))"
| "db_query fails pool db (INSERT rows) =
     (let client = pool (length (issued db)) in
      if rows = [] \<or> fails (length (issued db))
      then (Inl QueryError, db\<lparr>issued := issued db @ [(client, INSERT rows)]\<rparr>)
      else (Inr (length rows),
            (case map_of (transactions db) client of
               None \<Rightarrow>
                 db\<lparr>committed := committed db @ rows,
                    issued := issued db @ [(client, INSERT rows)]\<rparr>
             | Some written \<Rightarrow>
                 db\<lparr>transactions := AList.update client (written @ rows) (transactions db),
                    issued := issued db @ [(client, INSERT rows)]\<rparr>)))"
| "db_query fails pool db COMMIT =
     (let client = pool (length (issued db)) in
      (Inr 0,
       db\<lparr>committed :=
             committed db @ (case map_of (transactions db) client of None \<Rightarrow> [] | Some rows \<Rightarrow> rows),
          transactions := AList.delete client (transactions db),
          issued := issued db @ [(client, COMMIT)]\<rparr>))"
| "db_query fails pool db ROLLBACK =
     (let client = pool (length (issued db)) in
      (Inr 0,
       db\<lparr>transactions := AList.delete client (transactions db),
          issued := issued db @ [(client, ROLLBACK)]\<rparr>))"

section \<open>userService.js: the batch persister\<close>

text \<open>
  \<^verbatim>\<open>insertUserBatch\<close> (lines 38-57): the loop projects every user, then one INSERT with
  all the rows is sent.
\<close>

fun insertUserBatch_values :: "(jsnum \<Rightarrow> string) \<Rightarrow> props list \<Rightarrow> persistable list \<Rightarrow> error + persistable list" where
  "insertUserBatch_values numToString [] vals = Inr vals"
| "insertUserBatch_values numToString (user # users) vals =
     (case prepareUserData numToString user of
        Inl e \<Rightarrow> Inl e
      | Inr row \<Rightarrow> insertUserBatch_values numToString users (vals @ [row]))"

definition insertUserBatch ::
  "(jsnum \<Rightarrow> string) \<Rightarrow> (nat \<Rightarrow> bool) \<Rightarrow> (nat \<Rightarrow> nat) \<Rightarrow> props list \<Rightarrow> database \<Rightarrow> (error + nat) \<times> database" where
  "insertUserBatch numToString fails pool users db =
     (case insertUserBatch_values numToString users [] of
        Inl e \<Rightarrow> (Inl e, db)
      | Inr vals \<Rightarrow> db_query fails pool db (INSERT vals))"

text \<open>\<^verbatim>\<open>Array.prototype.slice(start, end)\<close>; a negative index counts from the end.\<close>

definition slice :: "'a list \<Rightarrow> int \<Rightarrow> int \<Rightarrow> 'a list" where
  "slice xs start end' =
     (let len = int (length xs);
          k = (if start < 0 then max (len + start) 0 else min start len);
          final = (if end' < 0 then max (len + end') 0 else min end' len)
      in take (nat (final - k)) (drop (nat k) xs))"

text \<open>
  \<^verbatim>\<open>parseInt(process.env.BATCH_SIZE) || 1000\<close> (line 9); the argument is what
  \<^verbatim>\<open>parseInt\<close> returned, \<^const>\<open>None\<close> for NaN.
\<close>

definition batchSize :: "int option \<Rightarrow> int" where
  "batchSize BATCH_SIZE = (case BATCH_SIZE of None \<Rightarrow> 1000 | Some n \<Rightarrow> if n = 0 then 1000 else n)"

text \<open>
  \<^verbatim>\<open>batchInsertUsers\<close> (lines 8-33). \<open>batchInsertUsers_loop\<close> is the \<^verbatim>\<open>for\<close> loop of
  lines 15-21; with a negative batch size the index never reaches the length, so the loop is
  a partial function and \<^const>\<open>None\<close> stands for not returning. \<open>catch_rollback\<close> is the
  \<^verbatim>\<open>catch\<close> block: ROLLBACK, then the error is thrown again. Every statement goes through
  \<^verbatim>\<open>db.query\<close>; \<^verbatim>\<open>getClient\<close> (connection.js, lines 73-81, \<^verbatim>\<open>Get a client from the pool
  for transactions\<close>) is not used.
\<close>

partial_function (option) batchInsertUsers_loop ::
  "(jsnum \<Rightarrow> string) \<Rightarrow> (nat \<Rightarrow> bool) \<Rightarrow> (nat \<Rightarrow> nat) \<Rightarrow> props list \<Rightarrow> int \<Rightarrow> int \<Rightarrow> nat \<Rightarrow> database \<Rightarrow> ((error + nat) \<times> database) option" where
  "batchInsertUsers_loop numToString fails pool users bsize i insertedCount db =
     (if i < int (length users) then
        (case insertUserBatch numToString fails pool (slice users i (i + bsize)) db of
           (Inl e, db') \<Rightarrow> Some (Inl e, db')
         | (Inr rowCount, db') \<Rightarrow>
             batchInsertUsers_loop numToString fails pool users bsize (i + bsize) (insertedCount + rowCount) db')
      else Some (Inr insertedCount, db))"

definition catch_rollback :: "(nat \<Rightarrow> bool) \<Rightarrow> (nat \<Rightarrow> nat) \<Rightarrow> error \<Rightarrow> database \<Rightarrow> (error + nat) \<times> database" where
  "catch_rollback fails pool e db =
     (case db_query fails pool db ROLLBACK of
        (Inl e', db') \<Rightarrow> (Inl e', db')
      | (Inr _, db') \<Rightarrow> (Inl e, db'))"

definition batchInsertUsers ::
  "(jsnum \<Rightarrow> string) \<Rightarrow> (nat \<Rightarrow> bool) \<Rightarrow> (nat \<Rightarrow> nat) \<Rightarrow> int option \<Rightarrow> props list \<Rightarrow> database \<Rightarrow> ((error + nat) \<times> database) option" where
  "batchInsertUsers numToString fails pool BATCH_SIZE users db =
     (case db_query fails pool db BEGIN of
        (Inl e, db1) \<Rightarrow> Some (catch_rollback fails pool e db1)
      | (Inr _, db1) \<Rightarrow>
         (case batchInsertUsers_loop numToString fails pool users (batchSize BATCH_SIZE) 0 0 db1 of
            None \<Rightarrow> None
          | Some (Inl e, db2) \<Rightarrow> Some (catch_rollback fails pool e db2)
          | Some (Inr insertedCount, db2) \<Rightarrow>
             (case db_query fails pool db2 COMMIT of
                (Inl e, db3) \<Rightarrow> Some (catch_rollback fails pool e db3)
              | (Inr _, db3) \<Rightarrow> Some (Inr insertedCount, db3))))"

section \<open>userService.js and reportService.js: the aggregator\<close>

text \<open>
  A row of table \<^verbatim>\<open>users\<close>, with the one column the report reads. \<^verbatim>\<open>getAgeStatistics\<close>
  (userService.js, lines 143-160) is one SQL statement; the model gives it the meaning SQL
  gives it: \<^verbatim>\<open>WHERE\<close> selects the rows, \<^verbatim>\<open>COUNT(CASE WHEN c THEN 1 END)\<close> counts the selected
  rows where \<open>c\<close> holds, and \<^verbatim>\<open>AVG\<close>, \<^verbatim>\<open>MIN\<close>, \<^verbatim>\<open>MAX\<close> over no row are NULL. The average
  is the exact quotient (the store rounds it to the scale of its numeric type).
\<close>

record users_row =
  row_id :: nat
  row_age :: "int option"

record age_statistics =
  total_users :: nat
  under_20 :: nat
  age_20_to_40 :: nat
  age_40_to_60 :: nat
  over_60 :: nat
  average_age :: "rat option"
  min_age :: "int option"
  max_age :: "int option"

definition selected_ages :: "users_row list \<Rightarrow> int list" where
  "selected_ages table = filter (\<lambda>a. 0 < a) (List.map_filter row_age table)"

definition getAgeStatistics :: "users_row list \<Rightarrow> age_statistics" where
  "getAgeStatistics table =
     (let ages = selected_ages table in
      \<lparr> total_users = length ages,
        under_20 = length (filter (\<lambda>a. a < 20) ages),
        age_20_to_40 = length (filter (\<lambda>a. 20 \<le> a \<and> a < 40) ages),
        age_40_to_60 = length (filter (\<lambda>a. 40 \<le> a \<and> a < 60) ages),
        over_60 = length (filter (\<lambda>a. 60 \<le> a) ages),
        average_age = (if ages = [] then None
                       else Some (rat_of_int (sum_list ages) / rat_of_nat (length ages))),
        min_age = (if ages = [] then None else Some (Min (set ages))),
        max_age = (if ages = [] then None else Some (Max (set ages))) \<rparr>)"

text \<open>
  \<^verbatim>\<open>getAgeDistribution\<close> (reportService.js, lines 57-113). The counts arrive as decimal
  strings and \<^verbatim>\<open>parseInt\<close> reads them back. \<^verbatim>\<open>parseFloat(stats.average_age).toFixed(1)\<close> is
  a string, the average printed with one decimal; \<open>ToFixed1 x\<close> stands for the string
  \<^verbatim>\<open>x.toFixed(1)\<close> of the number \<open>x\<close>, and \<^verbatim>\<open>parseFloat\<close> of the store's numeric is
  taken to be exact. \<^verbatim>\<open>parseFloat\<close> and \<^verbatim>\<open>parseInt\<close> of NULL are NaN. The
  \<^verbatim>\<open>percentage\<close> of a group is floating-point arithmetic and is left out of the record.
\<close>

datatype average_text = AverageNumber jsnum | ToFixed1 jsnum

record age_group =
  group :: string
  count :: nat

record age_range =
  range_min :: jsnum
  range_max :: jsnum

record age_distribution =
  totalUsers :: nat
  ageGroups :: "age_group list"
  averageAge :: average_text
  ageRange :: age_range

definition parseFloat_column :: "rat option \<Rightarrow> jsnum" where
  "parseFloat_column c = (case c of None \<Rightarrow> NaN | Some q \<Rightarrow> Num q)"

definition parseInt_column :: "int option \<Rightarrow> jsnum" where
  "parseInt_column c = (case c of None \<Rightarrow> NaN | Some n \<Rightarrow> Num (rat_of_int n))"

definition getAgeDistribution :: "users_row list \<Rightarrow> age_distribution" where
  "getAgeDistribution table =
     (let stats = getAgeStatistics table in
      if total_users stats = 0 then
        \<lparr> totalUsers = 0, ageGroups = [], averageAge = AverageNumber (Num 0),
          ageRange = \<lparr> range_min = Num 0, range_max = Num 0 \<rparr> \<rparr>
      else
        \<lparr> totalUsers = total_users stats,
          ageGroups =
            [ \<lparr> group = ''< 20'', count = under_20 stats \<rparr>,
              \<lparr> group = ''20 to 40'', count = age_20_to_40 stats \<rparr>,
              \<lparr> group = ''40 to 60'', count = age_40_to_60 stats \<rparr>,
              \<lparr> group = ''> 60'', count = over_60 stats \<rparr> ],
          averageAge = ToFixed1 (parseFloat_column (average_age stats)),
          ageRange = \<lparr> range_min = parseInt_column (min_age stats),
                       range_max = parseInt_column (max_age stats) \<rparr> \<rparr>)"

section \<open>Notions of the specification\<close>

text \<open>
  The repository has no CSV writer. The escaping that the round-trip property speaks of is
  the specification's: the value wrapped in double quotes, every embedded quote doubled;
  \<open>csvJoin\<close> puts commas between the fields of a line.
\<close>

definition escapeQuotes :: "string \<Rightarrow> string" where
  "escapeQuotes v = concat (map (\<lambda>c. if c = dquote then [dquote, dquote] else [c]) v)"



text \<open>
  Reading an object along a list of keys, \<^verbatim>\<open>obj[k1][k2]...\<close>, as far as own properties
  go: the observation of a record's content.
\<close>

fun getPath :: "props \<Rightarrow> string list \<Rightarrow> jsval option" where
  "getPath obj [] = Some (JObject obj)"
| "getPath obj [key] = map_of obj key"
| "getPath obj (key # keys) =
     (case map_of obj key of Some (JObject child) \<Rightarrow> getPath child keys | _ \<Rightarrow> None)"

text \<open>
  Reading a key on the object a call of \<^verbatim>\<open>setNestedProperty\<close> is given, \<^verbatim>\<open>obj[key]\<close>, as
  the language does: an own property, or what the object inherits.
\<close>

definition read_key :: "world \<Rightarrow> string \<Rightarrow> property" where
  "read_key w key = get_property w (Target, []) key"

text \<open>
  A dot-path none of whose keys is \<^verbatim>\<open>__proto__\<close>, and two dot-paths neither of which leads
  to or through the entry of the other.
\<close>

definition plain_path :: "string \<Rightarrow> bool" where
  "plain_path path \<longleftrightarrow> ''__proto__'' \<notin> set (js_split path CHR ''.'')"


text \<open>
  Dot-path materialisation on the own properties of an object: the entries along the path
  are created, or overwritten where they are not objects, and the last key is bound to the
  value. It is what the loop of \<^verbatim>\<open>setNestedProperty\<close> is shown to do on a path with no
  \<^verbatim>\<open>__proto__\<close> key.
\<close>

fun own_walk :: "props \<Rightarrow> string list \<Rightarrow> jsval \<Rightarrow> props" where
  "own_walk current [] v = js_put ''undefined'' v current"
| "own_walk current [key] v = js_put key v current"
| "own_walk current (key # keys) v =
     (case map_of current key of
        Some (JObject child) \<Rightarrow> js_put key (JObject (own_walk child keys v)) current
      | _ \<Rightarrow> js_put key (JObject (own_walk [] keys v)) current)"

text \<open>
  A data line that does not fit the headers: not blank, and tokenised to a number of fields
  that is not the number of headers.
\<close>

abbreviation badRow :: "string list \<Rightarrow> string \<Rightarrow> bool" where
  "badRow headers line \<equiv> trim line \<noteq> [] \<and> length (parseCSVLine line) \<noteq> length headers"

text \<open>
  A row whose age is not NULL and satisfies a condition: the rows a bucket of the age report
  speaks of.
\<close>

definition age_in :: "(int \<Rightarrow> bool) \<Rightarrow> users_row \<Rightarrow> bool" where
  "age_in P r = (case row_age r of Some a \<Rightarrow> P a | None \<Rightarrow> False)"

definition example_table :: "users_row list" where
  "example_table = [\<lparr>row_id = 1, row_age = Some 10\<rparr>, \<lparr>row_id = 2, row_age = Some 25\<rparr>,
     \<lparr>row_id = 3, row_age = Some 45\<rparr>, \<lparr>row_id = 4, row_age = Some 70\<rparr>]"

text \<open>
  The specification's partition of a sequence into consecutive chunks of a fixed size, the
  last one possibly shorter.
\<close>

function chunks :: "nat \<Rightarrow> 'a list \<Rightarrow> 'a list list" where
  "chunks n xs = (if n = 0 \<or> xs = [] then [] else take n xs # chunks n (drop n xs))"
  by pat_completeness auto
termination
  by (relation "measure (\<lambda>(n, xs). length xs)") auto

declare chunks.simps [simp del]

text \<open>
  The chunked writes of a batch, one after the other, stopping at the first that fails: what
  the loop of \<^verbatim>\<open>batchInsertUsers\<close> is shown to do with the chunks of its input.
\<close>

fun insert_chunks ::
  "(jsnum \<Rightarrow> string) \<Rightarrow> (nat \<Rightarrow> bool) \<Rightarrow> (nat \<Rightarrow> nat) \<Rightarrow> props list list \<Rightarrow> nat \<Rightarrow> database \<Rightarrow> (error + nat) \<times> database" where
  "insert_chunks numToString fails pool [] insertedCount db = (Inr insertedCount, db)"
| "insert_chunks numToString fails pool (chunk # rest) insertedCount db =
     (case insertUserBatch numToString fails pool chunk db of
        (Inl e, db') \<Rightarrow> (Inl e, db')
      | (Inr rowCount, db') \<Rightarrow> insert_chunks numToString fails pool rest (insertedCount + rowCount) db')"

text \<open>The store after BEGIN on a client with no open transaction.\<close>

abbreviation begun :: "nat \<Rightarrow> database \<Rightarrow> database" where
  "begun c db \<equiv>
     db\<lparr>transactions := AList.update c [] (transactions db), issued := issued db @ [(c, BEGIN)]\<rparr>"

section \<open>The tokenizer is total and yields at least one field\<close>

lemma parseCSVLine_loop_length:
  "length (parseCSVLine_loop line i result current inQuotes) \<ge> length result + 1"
proof (induction line i result current inQuotes rule: parseCSVLine_loop.induct)
  case (1 line i result current inQuotes)
  show ?case
    by (subst parseCSVLine_loop.simps) (use 1 in \<open>auto split: if_splits\<close>)
qed

text \<open>
  C10. The line tokenizer is total (the termination proof of \<open>parseCSVLine_loop\<close> above:
  every round moves \<open>i\<close> towards the end of the line) and returns at least one field for
  every line; for the empty line it returns exactly one field, the empty string.
\<close>

theorem parseCSVLine_at_least_one_field:
  "length (parseCSVLine line) \<ge> 1 \<and> parseCSVLine [] = [[]]"
proof
  show "length (parseCSVLine line) \<ge> 1"
    using parseCSVLine_loop_length [of "[]" line 0 "[]" False] by (simp add: parseCSVLine_def)
  show "parseCSVLine [] = [[]]"
    by (simp add: parseCSVLine_def parseCSVLine_loop.simps trim_def)
qed

section \<open>Escaping, then tokenizing\<close>

lemma escapeQuotes_simps [simp]:
  "escapeQuotes [] = []"
  "escapeQuotes (c # v) = (if c = dquote then [dquote, dquote] else [c]) @ escapeQuotes v"
  by (simp_all add: escapeQuotes_def)









section \<open>The record mapper\<close>

lemma map_of_insert_index_at:
  "map_of ps key = None \<Longrightarrow>
   map_of (insert_index n key v ps) k = (if k = key then Some v else map_of ps k)"
  by (induction ps) (auto split: option.splits if_splits)

lemma map_of_insert_index:
  "map_of ps key = None \<Longrightarrow> map_of (insert_index n key v ps) = (map_of ps)(key \<mapsto> v)"
  by (rule ext) (simp add: map_of_insert_index_at)

lemma map_of_js_put: "map_of (js_put key v ps) = (map_of ps)(key \<mapsto> v)"
  by (auto simp: js_put_def map_of_insert_index update_conv' split: option.splits)

lemma update_insert_index:
  "map_of ps key = None \<Longrightarrow> AList.update key v (insert_index n key u ps) = insert_index n key v ps"
  by (induction ps) (auto split: option.splits)

lemma update_js_put: "AList.update key v (js_put key u ps) = js_put key v ps"
  by (auto simp: js_put_def update_insert_index map_of_insert_index update_conv' split: option.splits)

lemma js_put_present: "map_of ps key = Some u \<Longrightarrow> js_put key v ps = AList.update key v ps"
  by (simp add: js_put_def split: option.splits)

text \<open>Objects at a location.\<close>

lemma props_at_modify_at:
  "props_at t path = Some cur \<Longrightarrow> props_at (modify_at f t path) path = Some (f cur)"
  by (induction path arbitrary: t) (auto simp: update_conv' split: option.splits jsval.splits)

lemma props_at_snoc:
  "props_at t path = Some cur \<Longrightarrow>
   props_at t (path @ [key]) = (case map_of cur key of Some (JObject c) \<Rightarrow> Some c | _ \<Rightarrow> None)"
  by (induction path arbitrary: t) (auto split: option.splits jsval.splits)

lemma modify_at_snoc:
  "modify_at f t (path @ [key]) =
   modify_at (\<lambda>ps. case map_of ps key of
                      Some (JObject c) \<Rightarrow> AList.update key (JObject (f c)) ps
                    | _ \<Rightarrow> ps) t path"
  by (induction path arbitrary: t) (auto split: option.splits jsval.splits)

lemma modify_at_modify_at:
  "props_at t path = Some cur \<Longrightarrow>
   modify_at g (modify_at h t path) path = modify_at (\<lambda>ps. g (h ps)) t path"
  by (induction path arbitrary: t) (auto simp: update_conv' split: option.splits jsval.splits)

lemma modify_at_cong:
  "props_at t path = Some cur \<Longrightarrow> f cur = g cur \<Longrightarrow> modify_at f t path = modify_at g t path"
  by (induction path arbitrary: t) (auto split: option.splits jsval.splits)

lemma root_props_define_own:
  "root_props (define_own w (r, path) key v) r = modify_at (js_put key v) (root_props w r) path"
  by (cases r) (simp_all add: define_own_def root_props_def Let_def)

text \<open>
  A round of the loop that starts at an object ends at an object: every location the walk
  reaches holds one.
\<close>

lemma descend_reaches_object:
  assumes "props_at (root_props w (fst current)) (snd current) = Some cur"
    and "descend w current key = (Inr loc, w')"
  shows "\<exists>ps. props_at (root_props w' (fst loc)) (snd loc) = Some ps"
proof -
  obtain r path where current: "current = (r, path)" by (cases current)
  have own: "own_props w current = cur"
    using assms(1) by (simp add: own_props_def)
  have new: "props_at (root_props (define_own w (r, path) key (JObject [])) r) (path @ [key]) = Some []"
    using assms(1) current
    by (simp add: root_props_define_own props_at_snoc [OF props_at_modify_at] map_of_js_put)
  show ?thesis
    using assms own new current
    by (auto simp: descend_def get_property_def props_at_snoc root_props_def
          split: option.splits jsval.splits if_splits)
qed

lemma js_split_nonempty: "js_split s sep \<noteq> []"
proof -
  have "split_from sep cur s \<noteq> []" for cur
    by (induction s arbitrary: cur) auto
  then show ?thesis by (simp add: js_split_def)
qed

text \<open>
  A round of the loop and the final assignment, for a key other than \<^verbatim>\<open>__proto__\<close> on an
  object of the target, when nothing has been written onto \<^verbatim>\<open>Object.prototype\<close>.
\<close>

lemma own_props_Target:
  "own_props w (Target, path) = (case props_at (target w) path of Some ps \<Rightarrow> ps | None \<Rightarrow> [])"
  by (simp add: own_props_def root_props_def)

lemma descend_own:
  assumes "object_prototype w = []" "key \<noteq> ''__proto__''"
  shows "descend w (Target, path) key =
     (case map_of (own_props w (Target, path)) key of
        Some (JObject c) \<Rightarrow> (Inr (Target, path @ [key]), w)
      | _ \<Rightarrow> (Inr (Target, path @ [key]), define_own w (Target, path) key (JObject [])))"
  using assms by (auto simp: descend_def get_property_def split: option.splits jsval.splits)

lemma assign_own:
  assumes "object_prototype w = []" "key \<noteq> ''__proto__''"
  shows "assign w (Target, path) key v = define_own w (Target, path) key (jsval_of v)"
  using assms by (auto simp: assign_def get_property_def split: option.splits)

lemma define_own_Target:
  "target (define_own w (Target, path) key v) = modify_at (js_put key v) (target w) path"
  "object_prototype (define_own w (Target, path) key v) = object_prototype w"
  "((Target, []) \<in> set (null_prototype (define_own w (Target, path) key v)))
     = ((Target, []) \<in> set (null_prototype w))"
  by (auto simp: define_own_def Let_def)

text \<open>
  On a path with no \<^verbatim>\<open>__proto__\<close> key, and when nothing has been written onto
  \<^verbatim>\<open>Object.prototype\<close>, the loop is \<open>own_walk\<close> on the object at \<^verbatim>\<open>current\<close>.
\<close>

lemma setNestedProperty_loop_own:
  assumes "object_prototype w = []" "''__proto__'' \<notin> set keys" "keys \<noteq> []"
    "props_at (target w) path = Some cur"
  shows "\<exists>w'. setNestedProperty_loop w (Target, path) keys v = (None, w')
     \<and> target w' = modify_at (\<lambda>c. own_walk c keys (jsval_of v)) (target w) path
     \<and> object_prototype w' = []
     \<and> ((Target, []) \<in> set (null_prototype w')) = ((Target, []) \<in> set (null_prototype w))"
  using assms
proof (induction keys arbitrary: w path cur)
  case Nil
  then show ?case by simp
next
  case (Cons key keys)
  show ?case
  proof (cases keys)
    case Nil
    with Cons.prems show ?thesis
      by (simp add: assign_own define_own_Target)
  next
    case (Cons k2 ks)
    note keys = this
    from Cons.prems have np: "key \<noteq> ''__proto__''" "''__proto__'' \<notin> set keys"
      by auto
    have own: "own_props w (Target, path) = cur"
      using Cons.prems by (simp add: own_props_Target)
    show ?thesis
    proof (cases "\<exists>c. map_of cur key = Some (JObject c)")
      case True
      then obtain c where c: "map_of cur key = Some (JObject c)" by blast
      have d: "descend w (Target, path) key = (Inr (Target, path @ [key]), w)"
        using Cons.prems np c own by (simp add: descend_own)
      have at: "props_at (target w) (path @ [key]) = Some c"
        using Cons.prems c by (simp add: props_at_snoc)
      from Cons.IH [OF Cons.prems(1) np(2) _ at] keys
      obtain w' where w': "setNestedProperty_loop w (Target, path @ [key]) keys v = (None, w')"
        "target w' = modify_at (\<lambda>c. own_walk c keys (jsval_of v)) (target w) (path @ [key])"
        "object_prototype w' = []"
        "((Target, []) \<in> set (null_prototype w')) = ((Target, []) \<in> set (null_prototype w))"
        by auto
      have "modify_at (\<lambda>c. own_walk c keys (jsval_of v)) (target w) (path @ [key])
          = modify_at (\<lambda>c. own_walk c (key # keys) (jsval_of v)) (target w) path"
        unfolding modify_at_snoc
        by (rule modify_at_cong [OF Cons.prems(4)]) (simp add: c keys js_put_present)
      with w' d keys show ?thesis
        by simp
    next
      case False
      let ?w1 = "define_own w (Target, path) key (JObject [])"
      have d: "descend w (Target, path) key = (Inr (Target, path @ [key]), ?w1)"
        using Cons.prems np False own
        by (auto simp: descend_own split: option.splits jsval.splits)
      have at1: "props_at (target ?w1) path = Some (js_put key (JObject []) cur)"
        using Cons.prems by (simp add: define_own_Target props_at_modify_at)
      have at: "props_at (target ?w1) (path @ [key]) = Some []"
        using at1 by (simp add: props_at_snoc map_of_js_put)
      have op1: "object_prototype ?w1 = []"
        using Cons.prems by (simp add: define_own_Target)
      from Cons.IH [OF op1 np(2) _ at] keys
      obtain w' where w': "setNestedProperty_loop ?w1 (Target, path @ [key]) keys v = (None, w')"
        "target w' = modify_at (\<lambda>c. own_walk c keys (jsval_of v)) (target ?w1) (path @ [key])"
        "object_prototype w' = []"
        "((Target, []) \<in> set (null_prototype w')) = ((Target, []) \<in> set (null_prototype ?w1))"
        by auto
      have "modify_at (\<lambda>c. own_walk c keys (jsval_of v)) (target ?w1) (path @ [key])
          = modify_at (\<lambda>c. own_walk c (key # keys) (jsval_of v)) (target w) path"
        unfolding modify_at_snoc define_own_Target modify_at_modify_at [OF Cons.prems(4)]
        by (rule modify_at_cong [OF Cons.prems(4)])
           (use False in \<open>auto simp: keys map_of_js_put update_js_put split: option.splits jsval.splits\<close>)
      with w' d keys show ?thesis
        by (simp add: define_own_Target)
    qed
  qed
qed

lemma setNestedProperty_own:
  assumes "object_prototype w = []" "plain_path path"
  shows "\<exists>w'. setNestedProperty w path v = (None, w')
     \<and> target w' = own_walk (target w) (js_split path CHR ''.'') (jsval_of v)
     \<and> object_prototype w' = []
     \<and> ((Target, []) \<in> set (null_prototype w')) = ((Target, []) \<in> set (null_prototype w))"
  using setNestedProperty_loop_own [of w "js_split path CHR ''.''" "[]" "target w" v] assms
  by (simp add: setNestedProperty_def js_split_nonempty plain_path_def)

text \<open>What \<open>own_walk\<close> writes and what it leaves.\<close>

lemma getPath_Cons:
  "getPath obj (key # keys) =
     (if keys = [] then map_of obj key
      else (case map_of obj key of Some (JObject child) \<Rightarrow> getPath child keys | _ \<Rightarrow> None))"
  by (cases keys) (auto split: option.splits jsval.splits)

lemma getPath_empty: "q \<noteq> [] \<Longrightarrow> getPath [] q = None"
  by (cases q) (simp_all add: getPath_Cons)

lemma map_of_walk_other:
  "keys \<noteq> [] \<Longrightarrow> k \<noteq> hd keys \<Longrightarrow> map_of (own_walk obj keys v) k = map_of obj k"
  by (induction obj keys v rule: own_walk.induct)
     (auto simp: map_of_js_put split: option.splits jsval.splits)

lemma getPath_walk_frame:
  "\<not> prefix q keys \<Longrightarrow> \<not> prefix keys q \<Longrightarrow>
   getPath (own_walk obj keys v) q = getPath obj q"
proof (induction obj keys v arbitrary: q rule: own_walk.induct)
  case (1 current v)
  then show ?case by simp
next
  case (2 current key v)
  then obtain k q' where q: "q = k # q'" "k \<noteq> key"
    by (cases q) auto
  then show ?case
    by (simp add: getPath_Cons map_of_js_put)
next
  case (3 current key k2 keys v)
  from "3.prems" obtain k q' where q: "q = k # q'"
    by (cases q) auto
  show ?case
  proof (cases "k = key")
    case False
    with q show ?thesis
      by (auto simp: getPath_Cons map_of_js_put split: option.splits jsval.splits)
  next
    case True
    with q "3.prems" have q': "\<not> prefix q' (k2 # keys)" "\<not> prefix (k2 # keys) q'" "q' \<noteq> []"
      by auto
    show ?thesis
      using q True q' "3.IH"
      by (auto simp: getPath_Cons map_of_js_put getPath_empty split: option.splits jsval.splits)
  qed
qed


text \<open>
  The frame property on the paths with no \<^verbatim>\<open>__proto__\<close> key (when nothing has been
  written onto \<^verbatim>\<open>Object.prototype\<close>): the call does not throw and writes nothing onto
  \<^verbatim>\<open>Object.prototype\<close>; every key other than the first key of the path reads as before,
  and so does every key path that is neither a prefix of the assigned path nor below it.
\<close>

lemma setNestedProperty_frame_plain:
  assumes "object_prototype w = []" "plain_path path"
  shows "fst (setNestedProperty w path v) = None"
    and "object_prototype (snd (setNestedProperty w path v)) = []"
    and "k \<noteq> hd (js_split path CHR ''.'') \<Longrightarrow>
           read_key (snd (setNestedProperty w path v)) k = read_key w k"
    and "\<not> prefix q (js_split path CHR ''.'') \<Longrightarrow> \<not> prefix (js_split path CHR ''.'') q \<Longrightarrow>
           getPath (target (snd (setNestedProperty w path v))) q = getPath (target w) q"
proof -
  from setNestedProperty_own [OF assms, of v]
  obtain w' where w': "setNestedProperty w path v = (None, w')"
     "target w' = own_walk (target w) (js_split path CHR ''.'') (jsval_of v)"
     "object_prototype w' = []"
     "((Target, []) \<in> set (null_prototype w')) = ((Target, []) \<in> set (null_prototype w))"
    by blast
  show "fst (setNestedProperty w path v) = None"
    and "object_prototype (snd (setNestedProperty w path v)) = []"
    using w' by simp_all
  show "read_key (snd (setNestedProperty w path v)) k = read_key w k"
    if "k \<noteq> hd (js_split path CHR ''.'')"
    using w' assms(1) that map_of_walk_other [OF js_split_nonempty that, of "target w" "jsval_of v"]
    by (simp add: read_key_def get_property_def own_props_Target split: option.splits)
  show "getPath (target (snd (setNestedProperty w path v))) q = getPath (target w) q"
    if "\<not> prefix q (js_split path CHR ''.'')" "\<not> prefix (js_split path CHR ''.'') q"
    using w' that by (simp add: getPath_walk_frame)
qed

text \<open>
  C9. The frame property fails on the code: a path whose first key is \<^verbatim>\<open>__proto__\<close> makes
  the walk leave the object for \<^verbatim>\<open>Object.prototype\<close>, and the assignment lands there. On
  a new object the key \<^verbatim>\<open>polluted\<close>, which is not the first key of the path
  \<^verbatim>\<open>__proto__.polluted\<close>, reads \<^verbatim>\<open>undefined\<close> before the call and \<^verbatim>\<open>'x'\<close> after it,
  inherited from \<^verbatim>\<open>Object.prototype\<close>; the entry created is not an entry of the object. A
  file with the header \<^verbatim>\<open>__proto__.polluted\<close> does this in a parse: its records hold no
  such key, and \<^verbatim>\<open>Object.prototype\<close> holds it when the parse returns.
\<close>

theorem setNestedProperty_pollutes_prototype:
  "''polluted'' \<noteq> hd (js_split ''__proto__.polluted'' CHR ''.'')
   \<and> read_key pristine ''polluted'' = Undefined
   \<and> setNestedProperty pristine ''__proto__.polluted'' (SString ''x'')
       = (None, \<lparr>target = [], object_prototype = [(''polluted'', JString ''x'')], null_prototype = []\<rparr>)
   \<and> read_key (snd (setNestedProperty pristine ''__proto__.polluted'' (SString ''x''))) ''polluted''
       = Inherited (JString ''x'')
   \<and> parseCSVFile (\<lambda>s. NaN) pristine
        (''name.firstName,name.lastName,age,__proto__.polluted'' @ [CHR 0x0A] @ ''Jane,Doe,abc,x'')
       = (Inr [[(''name'', JObject [(''firstName'', JString ''Jane''), (''lastName'', JString ''Doe'')]),
                (''age'', JString ''abc'')]],
          \<lparr>target = [(''name'', JObject [(''firstName'', JString ''Jane''), (''lastName'', JString ''Doe'')]),
                     (''age'', JString ''abc'')],
            object_prototype = [(''polluted'', JString ''x'')], null_prototype = []\<rparr>)"
  by code_simp

text \<open>
  Further runs of the mapper. A second \<^verbatim>\<open>__proto__\<close> key reaches the prototype of
  \<^verbatim>\<open>Object.prototype\<close> and the call throws; in a parse the exception ends the parse. A
  path through a key that \<^verbatim>\<open>Object.prototype\<close> has been given writes below that key, for
  whatever object the call is given. Assigned to \<^verbatim>\<open>__proto__\<close>, a string is ignored and
  \<^verbatim>\<open>null\<close> takes the prototype away, after which \<^verbatim>\<open>__proto__\<close> is a key like any other
  on that object. The keys of a record that are array indices come first, in ascending
  order, whatever the order of the headers.
\<close>

lemma setNestedProperty_runs:
  "fst (setNestedProperty pristine ''__proto__.__proto__.x'' (SString ''x'')) = Some TypeError"
  "fst (parseCSVFile (\<lambda>s. NaN) pristine
          (''name.firstName,name.lastName,age,a.__proto__.__proto__.x'' @ [CHR 0x0A] @ ''Jane,Doe,abc,x''))
     = Inl TypeError"
  "setNestedProperty \<lparr>target = [], object_prototype = [(''a'', JObject [])], null_prototype = []\<rparr>
       ''a.b'' (SString ''x'')
     = (None, \<lparr>target = [], object_prototype = [(''a'', JObject [(''b'', JString ''x'')])],
                null_prototype = []\<rparr>)"
  "setNestedProperty pristine ''a.__proto__'' (SString ''s'')
     = (None, \<lparr>target = [(''a'', JObject [])], object_prototype = [], null_prototype = []\<rparr>)"
  "setNestedProperty (snd (setNestedProperty pristine ''a.__proto__'' SNull)) ''a.__proto__.x'' (SString ''v'')
     = (None, \<lparr>target = [(''a'', JObject [(''__proto__'', JObject [(''x'', JString ''v'')])])],
                object_prototype = [], null_prototype = [(Target, [''a''])]\<rparr>)"
  "fst (convertToJSON (\<lambda>s. NaN) pristine [''b'', ''10'', ''2'', ''a.1'', ''01''] [''p'', ''q'', ''r'', ''s'', ''t''])
     = Inr [(''2'', JString ''r''), (''10'', JString ''q''), (''b'', JString ''p''),
            (''a'', JObject [(''1'', JString ''s'')]), (''01'', JString ''t'')]"
  by code_simp+

text \<open>The errors of the mapper.\<close>

lemma descend_plain:
  "key \<noteq> ''__proto__'' \<Longrightarrow> \<exists>loc w'. descend w current key = (Inr loc, w')"
  by (auto simp: descend_def get_property_def split: option.splits jsval.splits)

lemma descend_error: "descend w current key = (Inl e, w') \<Longrightarrow> e = TypeError"
  by (auto simp: descend_def split: property.splits jsval.splits option.splits)

lemma setNestedProperty_loop_plain:
  "''__proto__'' \<notin> set keys \<Longrightarrow> fst (setNestedProperty_loop w current keys v) = None"
proof (induction keys arbitrary: w current)
  case Nil
  then show ?case by simp
next
  case (Cons key keys)
  show ?case
  proof (cases keys)
    case Nil
    then show ?thesis by simp
  next
    case (Cons k2 ks)
    from Cons.prems obtain loc w' where "descend w current key = (Inr loc, w')"
      using descend_plain [of key w current] by auto
    with Cons Cons.IH [of w' loc] Cons.prems show ?thesis
      by simp
  qed
qed

lemma setNestedProperty_loop_error:
  "fst (setNestedProperty_loop w current keys v) = Some e \<Longrightarrow> e = TypeError"
proof (induction keys arbitrary: w current)
  case Nil
  then show ?case by simp
next
  case (Cons key keys)
  show ?case
  proof (cases keys)
    case Nil
    with Cons.prems show ?thesis by simp
  next
    case (Cons k2 ks)
    obtain r w' where d: "descend w current key = (r, w')"
      by (cases "descend w current key")
    show ?thesis
    proof (cases r)
      case (Inl e')
      with d Cons Cons.prems descend_error [of w current key e' w'] show ?thesis
        by simp
    next
      case (Inr loc)
      with d Cons Cons.prems Cons.IH [of w' loc] show ?thesis
        by simp
    qed
  qed
qed

lemma convertToJSON_loop_plain:
  "list_all (\<lambda>(h, v). plain_path h) pairs \<Longrightarrow> fst (convertToJSON_loop Number w pairs) = None"
proof (induction pairs arbitrary: w)
  case Nil
  then show ?case by simp
next
  case (Cons p pairs)
  obtain h v where p: "p = (h, v)" by (cases p)
  obtain r w' where s: "setNestedProperty w h (coerce Number h v) = (r, w')"
    by (cases "setNestedProperty w h (coerce Number h v)")
  from Cons.prems p have "fst (setNestedProperty w h (coerce Number h v)) = None"
    by (simp add: setNestedProperty_def plain_path_def setNestedProperty_loop_plain)
  with s have "r = None" by simp
  with s p Cons.IH [of w'] Cons.prems show ?case
    by simp
qed

lemma convertToJSON_loop_error:
  "fst (convertToJSON_loop Number w pairs) = Some e \<Longrightarrow> e = TypeError"
proof (induction pairs arbitrary: w)
  case Nil
  then show ?case by simp
next
  case (Cons p pairs)
  obtain h v where p: "p = (h, v)" by (cases p)
  obtain r w' where s: "setNestedProperty w h (coerce Number h v) = (r, w')"
    by (cases "setNestedProperty w h (coerce Number h v)")
  show ?case
  proof (cases r)
    case None
    with s p Cons.IH [of w'] Cons.prems show ?thesis
      by simp
  next
    case (Some e')
    with s have "fst (setNestedProperty_loop w (Target, []) (js_split h CHR ''.'') (coerce Number h v)) = Some e'"
      by (simp add: setNestedProperty_def)
    then have "e' = TypeError"
      by (rule setNestedProperty_loop_error)
    with s p Some Cons.prems show ?thesis
      by simp
  qed
qed

lemma convertToJSON_mismatch:
  "length headers \<noteq> length vals \<Longrightarrow>
   convertToJSON Number w headers vals = (Inl (HeaderCountMismatch (length headers) (length vals)), w)"
  by (simp add: convertToJSON_def)

lemma convertToJSON_plain:
  assumes "list_all plain_path headers" "length headers = length vals"
  shows "\<exists>user w'. convertToJSON Number w headers vals = (Inr user, w')"
proof -
  have "list_all (\<lambda>(h, v). plain_path h) (zip headers vals)"
    using assms(1) by (auto simp: list_all_iff dest: set_zip_leftD)
  from convertToJSON_loop_plain [OF this, of Number "new_target w"] assms(2)
  show ?thesis
    by (cases "convertToJSON_loop Number (new_target w) (zip headers vals)")
       (auto simp: convertToJSON_def)
qed

lemma convertToJSON_error:
  "fst (convertToJSON Number w headers vals) = Inl e \<Longrightarrow>
   e = TypeError \<or> e = HeaderCountMismatch (length headers) (length vals)"
  using convertToJSON_loop_error [of Number "new_target w" "zip headers vals"]
  by (cases "convertToJSON_loop Number (new_target w) (zip headers vals)")
     (auto simp: convertToJSON_def split: if_splits option.splits)












section \<open>The parse orchestrator\<close>

lemma parseCSVFile_rows_abort:
  "find (badRow headers) ls = Some l \<Longrightarrow>
   \<exists>e. fst (parseCSVFile_rows N w headers ls users) = Inl e"
proof (induction ls arbitrary: w users)
  case Nil
  then show ?case by simp
next
  case (Cons line ls)
  show ?case
  proof (cases "trim line = []")
    case True
    with Cons show ?thesis by simp
  next
    case False
    obtain r w' where c: "convertToJSON N w headers (parseCSVLine line) = (r, w')"
      by (cases "convertToJSON N w headers (parseCSVLine line)")
    show ?thesis
    proof (cases r)
      case (Inl e)
      with c False show ?thesis by simp
    next
      case (Inr user)
      with c have "length (parseCSVLine line) = length headers"
        by (auto simp: convertToJSON_def split: if_splits)
      with False Cons.prems have "find (badRow headers) ls = Some l"
        by simp
      from Cons.IH [OF this, of w' "users @ [user]"] c Inr False show ?thesis
        by simp
    qed
  qed
qed

lemma parseCSVFile_rows_mismatch:
  "list_all plain_path headers \<Longrightarrow> find (badRow headers) ls = Some l \<Longrightarrow>
   fst (parseCSVFile_rows N w headers ls users)
     = Inl (HeaderCountMismatch (length headers) (length (parseCSVLine l)))"
proof (induction ls arbitrary: w users)
  case Nil
  then show ?case by simp
next
  case (Cons line ls)
  show ?case
  proof (cases "trim line = []")
    case True
    with Cons show ?thesis by simp
  next
    case False
    show ?thesis
    proof (cases "length (parseCSVLine line) = length headers")
      case True
      from convertToJSON_plain [OF Cons.prems(1), of "parseCSVLine line" N w] True
      obtain user w' where c: "convertToJSON N w headers (parseCSVLine line) = (Inr user, w')"
        by auto
      from True False Cons.prems have "find (badRow headers) ls = Some l"
        by simp
      from Cons.IH [OF Cons.prems(1) this, of w' "users @ [user]"] c False show ?thesis
        by simp
    next
      case bad: False
      with False Cons.prems have "l = line" by simp
      with bad False show ?thesis
        by (simp add: convertToJSON_def)
    qed
  qed
qed

lemma parseCSVFile_rows_ok:
  "list_all plain_path headers \<Longrightarrow> find (badRow headers) ls = None \<Longrightarrow>
   \<exists>recs. fst (parseCSVFile_rows N w headers ls users) = Inr (users @ recs)
        \<and> length recs = length (filter (\<lambda>l. trim l \<noteq> []) ls)"
proof (induction ls arbitrary: w users)
  case Nil
  then show ?case by simp
next
  case (Cons l ls)
  show ?case
  proof (cases "trim l = []")
    case True
    with Cons show ?thesis by (simp split: if_splits)
  next
    case False
    with Cons.prems have len: "length headers = length (parseCSVLine l)"
      and rest: "find (badRow headers) ls = None"
      by (auto split: if_splits)
    from convertToJSON_plain [OF Cons.prems(1) len, of N w]
    obtain user w' where u: "convertToJSON N w headers (parseCSVLine l) = (Inr user, w')"
      by blast
    from Cons.IH [OF Cons.prems(1) rest, of w' "users @ [user]"] obtain recs where
      "fst (parseCSVFile_rows N w' headers ls (users @ [user])) = Inr ((users @ [user]) @ recs)"
      "length recs = length (filter (\<lambda>l. trim l \<noteq> []) ls)"
      by blast
    with False u show ?thesis
      by (intro exI [of _ "user # recs"]) simp
  qed
qed

lemma find_bad_exists:
  "line \<in> set ls \<Longrightarrow> badRow headers line \<Longrightarrow> \<exists>l. find (badRow headers) ls = Some l"
  by (cases "find (badRow headers) ls") (auto simp: find_None_iff)

lemma validateHeaders_cases:
  "validateHeaders headers =
     (if set requiredHeaders \<subseteq> set headers then Inr ()
      else Inl (MissingRequiredHeaders (filter (\<lambda>h. h \<notin> set headers) requiredHeaders)))"
  by (auto simp: validateHeaders_def Let_def filter_empty_conv)

lemma splitLines_from_Cons:
  "splitLines_from cur (c # cs) =
     (if c = CHR 0x0A then cur # splitLines_from [] cs
      else if c = CHR 0x0D \<and> cs \<noteq> [] \<and> hd cs = CHR 0x0A then cur # splitLines_from [] (tl cs)
      else splitLines_from (cur @ [c]) cs)"
  by (cases cs) simp_all

lemma splitLines_from_length:
  "length (splitLines_from cur s) = Suc (count_list s (CHR 0x0A))"
proof (induction s arbitrary: cur rule: length_induct)
  case (1 s)
  note IH = "1.IH" [rule_format]
  show ?case
  proof (cases s)
    case Nil
    then show ?thesis by simp
  next
    case (Cons c cs)
    have rest: "length (splitLines_from x cs) = Suc (count_list cs (CHR 0x0A))" for x
      using IH [of cs x] Cons by simp
    show ?thesis
    proof (cases "c = CHR 0x0A")
      case True
      then show ?thesis
        unfolding Cons splitLines_from_Cons using rest by simp
    next
      case notLF: False
      show ?thesis
      proof (cases "c = CHR 0x0D \<and> cs \<noteq> [] \<and> hd cs = CHR 0x0A")
        case True
        then obtain ds where ds: "cs = CHR 0x0A # ds"
          by (cases cs) auto
        have "length (splitLines_from x ds) = Suc (count_list ds (CHR 0x0A))" for x
          using IH [of ds x] Cons ds by simp
        with True notLF ds show ?thesis
          unfolding Cons splitLines_from_Cons by simp
      next
        case False
        then have "splitLines_from cur (c # cs) = splitLines_from (cur @ [c]) cs"
          using notLF by (simp only: splitLines_from_Cons if_False)
        with notLF show ?thesis
          unfolding Cons using rest by simp
      qed
    qed
  qed
qed

lemma parseCSVFile_rows_error:
  "fst (parseCSVFile_rows N w headers ls users) = Inl e \<Longrightarrow>
   e = TypeError \<or> (\<exists>n m. e = HeaderCountMismatch n m)"
proof (induction ls arbitrary: w users)
  case Nil
  then show ?case by simp
next
  case (Cons line ls)
  show ?case
  proof (cases "trim line = []")
    case True
    with Cons show ?thesis by simp
  next
    case False
    obtain r w' where c: "convertToJSON N w headers (parseCSVLine line) = (r, w')"
      by (cases "convertToJSON N w headers (parseCSVLine line)")
    show ?thesis
    proof (cases r)
      case (Inl e')
      with c False Cons.prems convertToJSON_error [of N w headers "parseCSVLine line" e']
      show ?thesis by auto
    next
      case (Inr user)
      with c False Cons.prems Cons.IH [of w' "users @ [user]"] show ?thesis
        by simp
    qed
  qed
qed

lemma parseCSVFile_error_iff:
  "fst (parseCSVFile N w content) = Inl AtLeastHeaderAndOneDataRow \<longleftrightarrow> CHR 0x0A \<notin> set content"
proof -
  have "length (splitLines content) < 2 \<longleftrightarrow> CHR 0x0A \<notin> set content"
    by (simp add: splitLines_def splitLines_from_length count_list_0_iff)
  moreover have "fst (parseCSVFile N w content) = Inl AtLeastHeaderAndOneDataRow
      \<longleftrightarrow> length (splitLines content) < 2"
    using parseCSVFile_rows_error [of N w _ _ "[]" AtLeastHeaderAndOneDataRow]
    by (auto simp: parseCSVFile_def Let_def validateHeaders_cases split: sum.splits if_splits)
  ultimately show ?thesis by simp
qed

text \<open>
  C4. \<^verbatim>\<open>convertToJSON\<close> fails with the header-count error whenever the header list and
  the value list differ in length. In a parse, a data line that is not blank and whose number
  of fields differs from the number of headers makes the whole parse fail: the result is an
  error and holds no record, whatever the lines before it were. With valid headers, none of
  which has a \<^verbatim>\<open>__proto__\<close> key, the error is the header-count error of the first such
  line; with such headers and no such line the parse returns one record for every data line
  that is not blank.
\<close>

theorem length_mismatch_aborts_parse:
  "(length headers \<noteq> length vals \<longrightarrow>
      convertToJSON Number w headers vals
        = (Inl (HeaderCountMismatch (length headers) (length vals)), w))
   \<and> (line \<in> set (drop 1 (splitLines content)) \<and> trim line \<noteq> [] \<and>
        length (parseCSVLine line) \<noteq> length (parseCSVLine (splitLines content ! 0)) \<longrightarrow>
      (\<exists>e. fst (parseCSVFile Number w content) = Inl e))
   \<and> (validateHeaders (parseCSVLine (splitLines content ! 0)) = Inr () \<and>
        list_all plain_path (parseCSVLine (splitLines content ! 0)) \<and>
        find (badRow (parseCSVLine (splitLines content ! 0))) (drop 1 (splitLines content)) = Some line \<longrightarrow>
      fst (parseCSVFile Number w content) =
        Inl (HeaderCountMismatch (length (parseCSVLine (splitLines content ! 0))) (length (parseCSVLine line))))
   \<and> (2 \<le> length (splitLines content) \<and>
        validateHeaders (parseCSVLine (splitLines content ! 0)) = Inr () \<and>
        list_all plain_path (parseCSVLine (splitLines content ! 0)) \<and>
        find (badRow (parseCSVLine (splitLines content ! 0))) (drop 1 (splitLines content)) = None \<longrightarrow>
      (\<exists>records. fst (parseCSVFile Number w content) = Inr records \<and>
         length records = length (filter (\<lambda>l. trim l \<noteq> []) (drop 1 (splitLines content)))))"
proof (intro conjI impI)
  let ?lines = "splitLines content"
  let ?headers = "parseCSVLine (?lines ! 0)"
  show "convertToJSON Number w headers vals
        = (Inl (HeaderCountMismatch (length headers) (length vals)), w)"
    if "length headers \<noteq> length vals"
    using that by (rule convertToJSON_mismatch)
  show "\<exists>e. fst (parseCSVFile Number w content) = Inl e"
    if h: "line \<in> set (drop 1 ?lines) \<and> trim line \<noteq> [] \<and> length (parseCSVLine line) \<noteq> length ?headers"
  proof -
    from h obtain l where "find (badRow ?headers) (drop 1 ?lines) = Some l"
      using find_bad_exists [of line "drop 1 ?lines" ?headers] by blast
    then have "\<exists>e. fst (parseCSVFile_rows Number w ?headers (drop 1 ?lines) []) = Inl e"
      by (rule parseCSVFile_rows_abort)
    then show ?thesis
      by (auto simp: parseCSVFile_def Let_def split: sum.splits)
  qed
  show "fst (parseCSVFile Number w content)
      = Inl (HeaderCountMismatch (length ?headers) (length (parseCSVLine line)))"
    if h: "validateHeaders ?headers = Inr () \<and> list_all plain_path ?headers \<and>
           find (badRow ?headers) (drop 1 ?lines) = Some line"
  proof -
    from h have "drop 1 ?lines \<noteq> []" by auto
    then have "\<not> length ?lines < 2" by (cases ?lines) auto
    with h parseCSVFile_rows_mismatch [of ?headers "drop 1 ?lines" line Number w "[]"] show ?thesis
      by (simp add: parseCSVFile_def Let_def)
  qed
  show "\<exists>records. fst (parseCSVFile Number w content) = Inr records \<and>
         length records = length (filter (\<lambda>l. trim l \<noteq> []) (drop 1 ?lines))"
    if h: "2 \<le> length ?lines \<and> validateHeaders ?headers = Inr () \<and> list_all plain_path ?headers \<and>
           find (badRow ?headers) (drop 1 ?lines) = None"
    using h parseCSVFile_rows_ok [of ?headers "drop 1 ?lines" Number w "[]"]
    by (simp add: parseCSVFile_def Let_def)
qed

theorem length_mismatch_aborts_parse_witness:
  "length [''name.firstName'', ''age''] \<noteq> length [''Jane'']
   \<and> convertToJSON (\<lambda>s. NaN) pristine [''name.firstName'', ''age''] [''Jane'']
       = (Inl (HeaderCountMismatch 2 1), pristine)
   \<and> ''John,Roe'' \<in> set (drop 1 (splitLines
          (''name.firstName,name.lastName,age'' @ [CHR 0x0A] @ ''Jane,Doe,30'' @ [CHR 0x0A] @ ''John,Roe'')))
   \<and> fst (parseCSVFile (\<lambda>s. NaN) pristine
          (''name.firstName,name.lastName,age'' @ [CHR 0x0A] @ ''Jane,Doe,30'' @ [CHR 0x0A] @ ''John,Roe''))
        = Inl (HeaderCountMismatch 3 2)
   \<and> (\<exists>records. fst (parseCSVFile (\<lambda>s. NaN) pristine
          (''name.firstName,name.lastName,age'' @ [CHR 0x0A] @ ''Jane,Doe,30'' @ [CHR 0x0A])) = Inr records
          \<and> length records = 1)"
proof -
  let ?bad = "''name.firstName,name.lastName,age'' @ [CHR 0x0A] @ ''Jane,Doe,30'' @ [CHR 0x0A] @ ''John,Roe''"
  let ?good = "''name.firstName,name.lastName,age'' @ [CHR 0x0A] @ ''Jane,Doe,30'' @ [CHR 0x0A]"
  let ?headers = "[''name.firstName'', ''name.lastName'', ''age'']"
  have lines_bad: "splitLines ?bad = [''name.firstName,name.lastName,age'', ''Jane,Doe,30'', ''John,Roe'']"
    by code_simp
  have lines_good: "splitLines ?good = [''name.firstName,name.lastName,age'', ''Jane,Doe,30'', []]"
    by code_simp
  have headers: "parseCSVLine ''name.firstName,name.lastName,age'' = ?headers"
    by code_simp
  have valid: "validateHeaders ?headers = Inr ()"
    by code_simp
  have plain: "list_all plain_path ?headers"
    by code_simp
  have find_bad: "find (badRow ?headers) [''Jane,Doe,30'', ''John,Roe''] = Some ''John,Roe''"
    by code_simp
  have find_good: "find (badRow ?headers) [''Jane,Doe,30'', []] = None"
    by code_simp
  have fields: "parseCSVLine ''John,Roe'' = [''John'', ''Roe'']"
    by code_simp
  have blank: "trim ''Jane,Doe,30'' \<noteq> []" "trim ''John,Roe'' \<noteq> []"
    by code_simp+
  have trim_empty: "trim [] = []"
    by (simp add: trim_def)
  have bad: "convertToJSON (\<lambda>s. NaN) pristine [''name.firstName'', ''age''] [''Jane'']
        = (Inl (HeaderCountMismatch 2 1), pristine)
      \<and> fst (parseCSVFile (\<lambda>s. NaN) pristine ?bad) = Inl (HeaderCountMismatch 3 2)"
    using length_mismatch_aborts_parse [of "[''name.firstName'', ''age'']" "[''Jane'']" "\<lambda>s. NaN" pristine
        "''John,Roe''" ?bad]
      lines_bad headers valid plain find_bad fields
    by simp
  have good: "\<exists>records. fst (parseCSVFile (\<lambda>s. NaN) pristine ?good) = Inr records \<and> length records = 1"
    using length_mismatch_aborts_parse [of "[]" "[]" "\<lambda>s. NaN" pristine "[]" ?good]
      lines_good headers valid plain find_good blank trim_empty
    by simp
  show ?thesis
    using bad good lines_bad by simp
qed

text \<open>
  C5. \<^verbatim>\<open>validateHeaders\<close> fails exactly when one of \<^verbatim>\<open>name.firstName\<close>,
  \<^verbatim>\<open>name.lastName\<close>, \<^verbatim>\<open>age\<close> is not among the headers, and its error names the
  required headers that are missing, these and no other. In a parse that has its two lines,
  headers that lack a required one make the parse fail with that error, whatever the data
  lines hold: the headers are checked once, before the loop over the data lines, and no
  record is produced (nor is anything else done: the world is left as it was).
\<close>

theorem missing_required_headers_abort:
  "validateHeaders headers =
     (if {''name.firstName'', ''name.lastName'', ''age''} \<subseteq> set headers then Inr ()
      else Inl (MissingRequiredHeaders
             (filter (\<lambda>h. h \<notin> set headers) [''name.firstName'', ''name.lastName'', ''age''])))
   \<and> set (filter (\<lambda>h. h \<notin> set headers) [''name.firstName'', ''name.lastName'', ''age''])
       = {''name.firstName'', ''name.lastName'', ''age''} - set headers
   \<and> (2 \<le> length (splitLines content) \<and>
        \<not> {''name.firstName'', ''name.lastName'', ''age''} \<subseteq> set (parseCSVLine (splitLines content ! 0)) \<longrightarrow>
      parseCSVFile Number w content =
        (Inl (MissingRequiredHeaders
              (filter (\<lambda>h. h \<notin> set (parseCSVLine (splitLines content ! 0)))
                 [''name.firstName'', ''name.lastName'', ''age''])), w))"
proof (intro conjI impI)
  show "validateHeaders headers =
     (if {''name.firstName'', ''name.lastName'', ''age''} \<subseteq> set headers then Inr ()
      else Inl (MissingRequiredHeaders
             (filter (\<lambda>h. h \<notin> set headers) [''name.firstName'', ''name.lastName'', ''age''])))"
    using validateHeaders_cases [of headers] by (simp add: requiredHeaders_def)
  show "set (filter (\<lambda>h. h \<notin> set headers) [''name.firstName'', ''name.lastName'', ''age''])
       = {''name.firstName'', ''name.lastName'', ''age''} - set headers"
    by auto
  show "parseCSVFile Number w content =
        (Inl (MissingRequiredHeaders
              (filter (\<lambda>h. h \<notin> set (parseCSVLine (splitLines content ! 0)))
                 [''name.firstName'', ''name.lastName'', ''age''])), w)"
    if "2 \<le> length (splitLines content) \<and>
        \<not> {''name.firstName'', ''name.lastName'', ''age''} \<subseteq> set (parseCSVLine (splitLines content ! 0))"
  proof -
    from that have "\<not> set requiredHeaders \<subseteq> set (parseCSVLine (splitLines content ! 0))"
      by (simp add: requiredHeaders_def)
    then have "validateHeaders (parseCSVLine (splitLines content ! 0)) =
        Inl (MissingRequiredHeaders
              (filter (\<lambda>h. h \<notin> set (parseCSVLine (splitLines content ! 0))) requiredHeaders))"
      by (simp only: validateHeaders_cases if_False)
    with that show ?thesis
      by (simp add: parseCSVFile_def Let_def requiredHeaders_def)
  qed
qed

theorem missing_required_headers_abort_witness:
  "2 \<le> length (splitLines (''name.firstName,name.lastName'' @ [CHR 0x0A] @ ''Jane,Doe,30'' @ [CHR 0x0A] @ ''John''))
   \<and> \<not> {''name.firstName'', ''name.lastName'', ''age''}
        \<subseteq> set (parseCSVLine (splitLines
             (''name.firstName,name.lastName'' @ [CHR 0x0A] @ ''Jane,Doe,30'' @ [CHR 0x0A] @ ''John'') ! 0))
   \<and> parseCSVFile (\<lambda>s. NaN) pristine
        (''name.firstName,name.lastName'' @ [CHR 0x0A] @ ''Jane,Doe,30'' @ [CHR 0x0A] @ ''John'')
      = (Inl (MissingRequiredHeaders [''age'']), pristine)"
proof -
  let ?content = "''name.firstName,name.lastName'' @ [CHR 0x0A] @ ''Jane,Doe,30'' @ [CHR 0x0A] @ ''John''"
  have lines: "splitLines ?content = [''name.firstName,name.lastName'', ''Jane,Doe,30'', ''John'']"
    by code_simp
  have headers: "parseCSVLine ''name.firstName,name.lastName'' = [''name.firstName'', ''name.lastName'']"
    by code_simp
  show ?thesis
    using missing_required_headers_abort [of "[]" ?content "\<lambda>s. NaN" pristine] lines headers
    by simp
qed

text \<open>
  C8. A file that holds the header line and its line end, and nothing else, has two lines for
  \<^verbatim>\<open>splitLines\<close>, the second empty. It passes the test \<^verbatim>\<open>lines.length < 2\<close> and the parse
  returns the empty list of records. The error of that test is raised exactly when the content
  has no line feed at all.
\<close>

theorem parseCSVFile_header_only_accepted:
  "parseCSVFile Number w (''name.firstName,name.lastName,age'' @ [CHR 0x0A]) = (Inr [], w)
   \<and> (fst (parseCSVFile Number w content) = Inl AtLeastHeaderAndOneDataRow \<longleftrightarrow> CHR 0x0A \<notin> set content)"
proof
  show "parseCSVFile Number w (''name.firstName,name.lastName,age'' @ [CHR 0x0A]) = (Inr [], w)"
    by code_simp
  show "fst (parseCSVFile Number w content) = Inl AtLeastHeaderAndOneDataRow \<longleftrightarrow> CHR 0x0A \<notin> set content"
    by (rule parseCSVFile_error_iff)
qed

section \<open>The projection to a row\<close>





lemma templateString_error_iff:
  "(\<exists>e. templateString numToString x = Inl e) \<longleftrightarrow>
     (\<exists>ps. x = JObject ps \<and> map_of ps ''toString'' \<noteq> None)"
  by (cases x) auto






section \<open>The age report\<close>

lemma ex_dist:
  "getAgeDistribution [\<lparr>row_id = 1, row_age = Some 10\<rparr>, \<lparr>row_id = 2, row_age = Some 25\<rparr>,
     \<lparr>row_id = 3, row_age = Some 45\<rparr>, \<lparr>row_id = 4, row_age = Some 70\<rparr>]
   = \<lparr> totalUsers = 4,
       ageGroups = [\<lparr>group = ''< 20'', count = 1\<rparr>, \<lparr>group = ''20 to 40'', count = 1\<rparr>,
                    \<lparr>group = ''40 to 60'', count = 1\<rparr>, \<lparr>group = ''> 60'', count = 1\<rparr>],
       averageAge = ToFixed1 (Num (75 / 2)),
       ageRange = \<lparr>range_min = Num 10, range_max = Num 70\<rparr> \<rparr>"
  by (simp add: getAgeDistribution_def getAgeStatistics_def selected_ages_def List.map_filter_simps
      parseInt_column_def parseFloat_column_def Let_def)

lemma selected_ages_mset:
  "mset table = mset table' \<Longrightarrow> mset (selected_ages table) = mset (selected_ages table')"
  by (simp add: selected_ages_def List.map_filter_def)

lemma length_filter_mset:
  assumes "mset xs = mset ys"
  shows "length (filter P xs) = length (filter P ys)"
proof -
  have "size (mset (filter P xs)) = size (mset (filter P ys))"
    by (simp only: mset_filter assms)
  then show ?thesis
    by (simp only: size_mset)
qed

lemma getAgeStatistics_mset:
  assumes "mset table = mset table'"
  shows "getAgeStatistics table = getAgeStatistics table'"
proof -
  let ?a = "selected_ages table" and ?b = "selected_ages table'"
  have m: "mset ?a = mset ?b"
    using assms by (rule selected_ages_mset)
  have len: "length ?a = length ?b"
    using m by (rule mset_eq_length)
  have nil: "?a = [] \<longleftrightarrow> ?b = []"
    using len by auto
  have sum: "sum_list ?a = sum_list ?b"
    using arg_cong [OF m, of sum_mset] by (simp add: sum_mset_sum_list)
  have set: "set ?a = set ?b"
    using m by (rule mset_eq_setD)
  show ?thesis
    unfolding getAgeStatistics_def Let_def
    by (simp add: len nil sum set length_filter_mset [OF m])
qed

lemma buckets_partition:
  "length (filter (\<lambda>a. a < 20) ages) + length (filter (\<lambda>a. 20 \<le> a \<and> a < 40) ages)
   + length (filter (\<lambda>a. 40 \<le> a \<and> a < 60) ages) + length (filter (\<lambda>a. 60 \<le> a) ages)
   = length (ages :: int list)"
  by (induction ages) auto

lemma selected_ages_set:
  "set (selected_ages table) = {a. \<exists>r \<in> set table. row_age r = Some a \<and> 0 < a}"
  by (force simp: selected_ages_def List.map_filter_def image_iff)

lemma selected_ages_Cons:
  "selected_ages (r # table) =
     (case row_age r of
        Some a \<Rightarrow> if 0 < a then a # selected_ages table else selected_ages table
      | None \<Rightarrow> selected_ages table)"
  by (simp add: selected_ages_def List.map_filter_simps split: option.splits)

lemma selected_ages_Nil: "selected_ages [] = []"
  by (simp add: selected_ages_def List.map_filter_simps)

lemma count_selected:
  "length (filter P (selected_ages table)) = length (filter (age_in (\<lambda>a. 0 < a \<and> P a)) table)"
  by (induction table) (auto simp: selected_ages_Nil selected_ages_Cons age_in_def split: option.splits)

lemma getAgeStatistics_fields:
  "total_users (getAgeStatistics table) = length (selected_ages table)"
  "under_20 (getAgeStatistics table) = length (filter (\<lambda>a. a < 20) (selected_ages table))"
  "age_20_to_40 (getAgeStatistics table) = length (filter (\<lambda>a. 20 \<le> a \<and> a < 40) (selected_ages table))"
  "age_40_to_60 (getAgeStatistics table) = length (filter (\<lambda>a. 40 \<le> a \<and> a < 60) (selected_ages table))"
  "over_60 (getAgeStatistics table) = length (filter (\<lambda>a. 60 \<le> a) (selected_ages table))"
  "average_age (getAgeStatistics table) =
     (if selected_ages table = [] then None
      else Some (rat_of_int (sum_list (selected_ages table)) / rat_of_nat (length (selected_ages table))))"
  "min_age (getAgeStatistics table) =
     (if selected_ages table = [] then None else Some (Min (set (selected_ages table))))"
  "max_age (getAgeStatistics table) =
     (if selected_ages table = [] then None else Some (Max (set (selected_ages table))))"
  by (simp_all add: getAgeStatistics_def Let_def)

lemma age_in_cong:
  "(\<And>a. 0 < a \<and> P a \<longleftrightarrow> Q a) \<Longrightarrow>
   length (filter P (selected_ages table)) = length (filter (age_in Q) table)"
  using count_selected [of P table] by simp

lemma length_selected:
  "length (selected_ages table) = length (filter (age_in (\<lambda>a. 0 < a)) table)"
  using count_selected [of "\<lambda>a. True" table] by simp

lemma getAgeDistribution_mset:
  "mset table = mset table' \<Longrightarrow> getAgeDistribution table = getAgeDistribution table'"
  by (simp add: getAgeDistribution_def getAgeStatistics_mset [of table table'])

lemma getAgeStatistics_empty:
  "selected_ages table = [] \<Longrightarrow>
   getAgeStatistics table =
     \<lparr> total_users = 0, under_20 = 0, age_20_to_40 = 0, age_40_to_60 = 0, over_60 = 0,
       average_age = None, min_age = None, max_age = None \<rparr>"
  by (simp add: getAgeStatistics_def Let_def)

lemma getAgeDistribution_empty:
  "selected_ages table = [] \<Longrightarrow>
   getAgeDistribution table =
     \<lparr> totalUsers = 0, ageGroups = [], averageAge = AverageNumber (Num 0),
       ageRange = \<lparr> range_min = Num 0, range_max = Num 0 \<rparr> \<rparr>"
  by (simp add: getAgeDistribution_def getAgeStatistics_def)

lemma getAgeDistribution_nonempty:
  "selected_ages table \<noteq> [] \<Longrightarrow>
   getAgeDistribution table =
     \<lparr> totalUsers = length (selected_ages table),
       ageGroups =
         [ \<lparr> group = ''< 20'', count = under_20 (getAgeStatistics table) \<rparr>,
           \<lparr> group = ''20 to 40'', count = age_20_to_40 (getAgeStatistics table) \<rparr>,
           \<lparr> group = ''40 to 60'', count = age_40_to_60 (getAgeStatistics table) \<rparr>,
           \<lparr> group = ''> 60'', count = over_60 (getAgeStatistics table) \<rparr> ],
       averageAge = ToFixed1 (Num (rat_of_int (sum_list (selected_ages table))
                              / rat_of_nat (length (selected_ages table)))),
       ageRange = \<lparr> range_min = Num (rat_of_int (Min (set (selected_ages table)))),
                    range_max = Num (rat_of_int (Max (set (selected_ages table)))) \<rparr> \<rparr>"
  by (simp add: getAgeDistribution_def getAgeStatistics_fields parseInt_column_def parseFloat_column_def Let_def)

text \<open>
  C2, amended. The report is computed over the rows whose age is not NULL and greater than 0,
  and depends on the multiset of rows only. \<^verbatim>\<open>getAgeStatistics\<close> gives the number of these
  rows, the numbers of them with age below 20, from 20 below 40, from 40 below 60, and from
  60 on (four counts that add up to the total), and their mean, minimum and maximum age,
  which are NULL when there is no such row. \<^verbatim>\<open>getAgeDistribution\<close> returns, when there is
  no such row, total 0, an empty list of age groups (no bucket entries), average 0 and range
  0 to 0, without failing; otherwise the total, the four groups with their counts, the mean
  printed with one decimal, and the minimum and maximum. On the ages 10, 25, 45, 70 every
  group counts 1, the average is 37.5 printed with one decimal, the minimum 10, the maximum
  70.
\<close>

theorem age_report:
  "total_users (getAgeStatistics table) = length (filter (age_in (\<lambda>a. 0 < a)) table)
   \<and> under_20 (getAgeStatistics table) = length (filter (age_in (\<lambda>a. 0 < a \<and> a < 20)) table)
   \<and> age_20_to_40 (getAgeStatistics table) = length (filter (age_in (\<lambda>a. 20 \<le> a \<and> a < 40)) table)
   \<and> age_40_to_60 (getAgeStatistics table) = length (filter (age_in (\<lambda>a. 40 \<le> a \<and> a < 60)) table)
   \<and> over_60 (getAgeStatistics table) = length (filter (age_in (\<lambda>a. 60 \<le> a)) table)
   \<and> under_20 (getAgeStatistics table) + age_20_to_40 (getAgeStatistics table)
       + age_40_to_60 (getAgeStatistics table) + over_60 (getAgeStatistics table)
       = total_users (getAgeStatistics table)
   \<and> set (selected_ages table) = {a. \<exists>r \<in> set table. row_age r = Some a \<and> 0 < a}
   \<and> (selected_ages table = [] \<longrightarrow>
        getAgeStatistics table =
          \<lparr> total_users = 0, under_20 = 0, age_20_to_40 = 0, age_40_to_60 = 0, over_60 = 0,
            average_age = None, min_age = None, max_age = None \<rparr>
        \<and> getAgeDistribution table =
          \<lparr> totalUsers = 0, ageGroups = [], averageAge = AverageNumber (Num 0),
            ageRange = \<lparr> range_min = Num 0, range_max = Num 0 \<rparr> \<rparr>)
   \<and> (selected_ages table \<noteq> [] \<longrightarrow>
        average_age (getAgeStatistics table)
          = Some (rat_of_int (sum_list (selected_ages table)) / rat_of_nat (length (selected_ages table)))
        \<and> min_age (getAgeStatistics table) = Some (Min (set (selected_ages table)))
        \<and> max_age (getAgeStatistics table) = Some (Max (set (selected_ages table)))
        \<and> getAgeDistribution table =
          \<lparr> totalUsers = total_users (getAgeStatistics table),
            ageGroups =
              [ \<lparr> group = ''< 20'', count = under_20 (getAgeStatistics table) \<rparr>,
                \<lparr> group = ''20 to 40'', count = age_20_to_40 (getAgeStatistics table) \<rparr>,
                \<lparr> group = ''40 to 60'', count = age_40_to_60 (getAgeStatistics table) \<rparr>,
                \<lparr> group = ''> 60'', count = over_60 (getAgeStatistics table) \<rparr> ],
            averageAge = ToFixed1 (Num (rat_of_int (sum_list (selected_ages table))
                                   / rat_of_nat (length (selected_ages table)))),
            ageRange = \<lparr> range_min = Num (rat_of_int (Min (set (selected_ages table)))),
                         range_max = Num (rat_of_int (Max (set (selected_ages table)))) \<rparr> \<rparr>)
   \<and> (mset table = mset table' \<longrightarrow>
        getAgeStatistics table = getAgeStatistics table'
        \<and> getAgeDistribution table = getAgeDistribution table')
   \<and> getAgeDistribution
         [\<lparr>row_id = 1, row_age = Some 10\<rparr>, \<lparr>row_id = 2, row_age = Some 25\<rparr>,
          \<lparr>row_id = 3, row_age = Some 45\<rparr>, \<lparr>row_id = 4, row_age = Some 70\<rparr>]
       = \<lparr> totalUsers = 4,
           ageGroups = [\<lparr>group = ''< 20'', count = 1\<rparr>, \<lparr>group = ''20 to 40'', count = 1\<rparr>,
                        \<lparr>group = ''40 to 60'', count = 1\<rparr>, \<lparr>group = ''> 60'', count = 1\<rparr>],
           averageAge = ToFixed1 (Num (75 / 2)),
           ageRange = \<lparr>range_min = Num 10, range_max = Num 70\<rparr> \<rparr>"
proof -
  let ?s = "getAgeStatistics table" and ?ages = "selected_ages table"
  have total: "total_users ?s = length (filter (age_in (\<lambda>a. 0 < a)) table)"
    by (simp add: getAgeStatistics_fields length_selected)
  have b1: "under_20 ?s = length (filter (age_in (\<lambda>a. 0 < a \<and> a < 20)) table)"
    by (simp add: getAgeStatistics_fields count_selected)
  have b2: "age_20_to_40 ?s = length (filter (age_in (\<lambda>a. 20 \<le> a \<and> a < 40)) table)"
    unfolding getAgeStatistics_fields by (rule age_in_cong) auto
  have b3: "age_40_to_60 ?s = length (filter (age_in (\<lambda>a. 40 \<le> a \<and> a < 60)) table)"
    unfolding getAgeStatistics_fields by (rule age_in_cong) auto
  have b4: "over_60 ?s = length (filter (age_in (\<lambda>a. 60 \<le> a)) table)"
    unfolding getAgeStatistics_fields by (rule age_in_cong) auto
  have part: "under_20 ?s + age_20_to_40 ?s + age_40_to_60 ?s + over_60 ?s = total_users ?s"
    using buckets_partition [of ?ages] by (simp add: getAgeStatistics_fields)
  have nonempty: "average_age ?s = Some (rat_of_int (sum_list ?ages) / rat_of_nat (length ?ages))
        \<and> min_age ?s = Some (Min (set ?ages)) \<and> max_age ?s = Some (Max (set ?ages))"
    if "?ages \<noteq> []"
    using that by (simp add: getAgeStatistics_fields)
  have dist: "getAgeDistribution table =
          \<lparr> totalUsers = total_users ?s,
            ageGroups =
              [ \<lparr> group = ''< 20'', count = under_20 ?s \<rparr>,
                \<lparr> group = ''20 to 40'', count = age_20_to_40 ?s \<rparr>,
                \<lparr> group = ''40 to 60'', count = age_40_to_60 ?s \<rparr>,
                \<lparr> group = ''> 60'', count = over_60 ?s \<rparr> ],
            averageAge = ToFixed1 (Num (rat_of_int (sum_list ?ages) / rat_of_nat (length ?ages))),
            ageRange = \<lparr> range_min = Num (rat_of_int (Min (set ?ages))),
                         range_max = Num (rat_of_int (Max (set ?ages))) \<rparr> \<rparr>"
    if "?ages \<noteq> []"
    using getAgeDistribution_nonempty [OF that] by (simp add: getAgeStatistics_fields)
  show ?thesis
    using total b1 b2 b3 b4 part selected_ages_set [of table] getAgeStatistics_empty [of table]
      getAgeDistribution_empty [of table] nonempty dist
      getAgeStatistics_mset [of table table'] getAgeDistribution_mset [of table table'] ex_dist
    by blast
qed

text \<open>
  C2, as stated, fails on the empty result: with no row of age above 0,
  \<^verbatim>\<open>getAgeDistribution\<close> returns no age group at all, not four groups of count 0, and
  \<^verbatim>\<open>getAgeStatistics\<close> returns NULL, not 0, for average, minimum and maximum.
\<close>

theorem age_report_empty_counterexample:
  "ageGroups (getAgeDistribution []) = []
   \<and> map count (ageGroups (getAgeDistribution [])) \<noteq> [0, 0, 0, 0]
   \<and> average_age (getAgeStatistics []) = None
   \<and> min_age (getAgeStatistics []) = None
   \<and> max_age (getAgeStatistics []) = None"
  by (simp add: getAgeDistribution_empty selected_ages_Nil getAgeStatistics_fields)

theorem age_report_witness:
  "selected_ages [\<lparr>row_id = 1, row_age = Some 0\<rparr>, \<lparr>row_id = 2, row_age = None\<rparr>] = []
   \<and> getAgeDistribution [\<lparr>row_id = 1, row_age = Some 0\<rparr>, \<lparr>row_id = 2, row_age = None\<rparr>]
       = \<lparr> totalUsers = 0, ageGroups = [], averageAge = AverageNumber (Num 0),
           ageRange = \<lparr> range_min = Num 0, range_max = Num 0 \<rparr> \<rparr>
   \<and> selected_ages [\<lparr>row_id = 1, row_age = Some 10\<rparr>, \<lparr>row_id = 2, row_age = Some 0\<rparr>,
          \<lparr>row_id = 3, row_age = Some 70\<rparr>, \<lparr>row_id = 4, row_age = None\<rparr>,
          \<lparr>row_id = 5, row_age = Some (- 3)\<rparr>, \<lparr>row_id = 6, row_age = Some 25\<rparr>] \<noteq> []
   \<and> getAgeDistribution [\<lparr>row_id = 1, row_age = Some 10\<rparr>, \<lparr>row_id = 2, row_age = Some 0\<rparr>,
          \<lparr>row_id = 3, row_age = Some 70\<rparr>, \<lparr>row_id = 4, row_age = None\<rparr>,
          \<lparr>row_id = 5, row_age = Some (- 3)\<rparr>, \<lparr>row_id = 6, row_age = Some 25\<rparr>]
       = \<lparr> totalUsers = 3,
           ageGroups = [\<lparr>group = ''< 20'', count = 1\<rparr>, \<lparr>group = ''20 to 40'', count = 1\<rparr>,
                        \<lparr>group = ''40 to 60'', count = 0\<rparr>, \<lparr>group = ''> 60'', count = 1\<rparr>],
           averageAge = ToFixed1 (Num 35),
           ageRange = \<lparr>range_min = Num 10, range_max = Num 70\<rparr> \<rparr>
   \<and> mset [\<lparr>row_id = 1, row_age = Some 10\<rparr>, \<lparr>row_id = 2, row_age = Some 0\<rparr>,
          \<lparr>row_id = 3, row_age = Some 70\<rparr>, \<lparr>row_id = 4, row_age = None\<rparr>,
          \<lparr>row_id = 5, row_age = Some (- 3)\<rparr>, \<lparr>row_id = 6, row_age = Some 25\<rparr>]
       = mset [\<lparr>row_id = 6, row_age = Some 25\<rparr>, \<lparr>row_id = 5, row_age = Some (- 3)\<rparr>,
          \<lparr>row_id = 4, row_age = None\<rparr>, \<lparr>row_id = 3, row_age = Some 70\<rparr>,
          \<lparr>row_id = 2, row_age = Some 0\<rparr>, \<lparr>row_id = 1, row_age = Some 10\<rparr>]
   \<and> getAgeDistribution [\<lparr>row_id = 1, row_age = Some 10\<rparr>, \<lparr>row_id = 2, row_age = Some 0\<rparr>,
          \<lparr>row_id = 3, row_age = Some 70\<rparr>, \<lparr>row_id = 4, row_age = None\<rparr>,
          \<lparr>row_id = 5, row_age = Some (- 3)\<rparr>, \<lparr>row_id = 6, row_age = Some 25\<rparr>]
       = getAgeDistribution [\<lparr>row_id = 6, row_age = Some 25\<rparr>, \<lparr>row_id = 5, row_age = Some (- 3)\<rparr>,
          \<lparr>row_id = 4, row_age = None\<rparr>, \<lparr>row_id = 3, row_age = Some 70\<rparr>,
          \<lparr>row_id = 2, row_age = Some 0\<rparr>, \<lparr>row_id = 1, row_age = Some 10\<rparr>]"
proof -
  let ?none = "[\<lparr>row_id = 1, row_age = Some 0\<rparr>, \<lparr>row_id = 2, row_age = None\<rparr>]"
  let ?some = "[\<lparr>row_id = 1, row_age = Some 10\<rparr>, \<lparr>row_id = 2, row_age = Some 0\<rparr>,
          \<lparr>row_id = 3, row_age = Some 70\<rparr>, \<lparr>row_id = 4, row_age = None\<rparr>,
          \<lparr>row_id = 5, row_age = Some (- 3)\<rparr>, \<lparr>row_id = 6, row_age = Some 25\<rparr>]"
  let ?perm = "[\<lparr>row_id = 6, row_age = Some 25\<rparr>, \<lparr>row_id = 5, row_age = Some (- 3)\<rparr>,
          \<lparr>row_id = 4, row_age = None\<rparr>, \<lparr>row_id = 3, row_age = Some 70\<rparr>,
          \<lparr>row_id = 2, row_age = Some 0\<rparr>, \<lparr>row_id = 1, row_age = Some 10\<rparr>]"
  have none: "selected_ages ?none = []"
    by (simp add: selected_ages_Cons selected_ages_Nil)
  have some: "selected_ages ?some = [10, 70, 25]"
    by (simp add: selected_ages_Cons selected_ages_Nil)
  have perm: "mset ?some = mset ?perm"
    by (simp add: add_ac)
  have empty_report: "getAgeDistribution ?none
       = \<lparr> totalUsers = 0, ageGroups = [], averageAge = AverageNumber (Num 0),
           ageRange = \<lparr> range_min = Num 0, range_max = Num 0 \<rparr> \<rparr>"
    using age_report [of ?none ?none] none by simp
  note R = age_report [of ?some ?perm]
  have nonempty: "selected_ages ?some \<noteq> []"
    unfolding some by simp
  from R have total: "total_users (getAgeStatistics ?some) = length (filter (age_in (\<lambda>a. 0 < a)) ?some)"
    by blast
  from R have b1: "under_20 (getAgeStatistics ?some) = length (filter (age_in (\<lambda>a. 0 < a \<and> a < 20)) ?some)"
    by blast
  from R have b2: "age_20_to_40 (getAgeStatistics ?some) = length (filter (age_in (\<lambda>a. 20 \<le> a \<and> a < 40)) ?some)"
    by blast
  from R have b3: "age_40_to_60 (getAgeStatistics ?some) = length (filter (age_in (\<lambda>a. 40 \<le> a \<and> a < 60)) ?some)"
    by blast
  from R have b4: "over_60 (getAgeStatistics ?some) = length (filter (age_in (\<lambda>a. 60 \<le> a)) ?some)"
    by blast
  from R nonempty have dist: "getAgeDistribution ?some =
          \<lparr> totalUsers = total_users (getAgeStatistics ?some),
            ageGroups =
              [ \<lparr> group = ''< 20'', count = under_20 (getAgeStatistics ?some) \<rparr>,
                \<lparr> group = ''20 to 40'', count = age_20_to_40 (getAgeStatistics ?some) \<rparr>,
                \<lparr> group = ''40 to 60'', count = age_40_to_60 (getAgeStatistics ?some) \<rparr>,
                \<lparr> group = ''> 60'', count = over_60 (getAgeStatistics ?some) \<rparr> ],
            averageAge = ToFixed1 (Num (rat_of_int (sum_list (selected_ages ?some))
                                   / rat_of_nat (length (selected_ages ?some)))),
            ageRange = \<lparr> range_min = Num (rat_of_int (Min (set (selected_ages ?some)))),
                         range_max = Num (rat_of_int (Max (set (selected_ages ?some)))) \<rparr> \<rparr>"
    by blast
  have report: "getAgeDistribution ?some
       = \<lparr> totalUsers = 3,
           ageGroups = [\<lparr>group = ''< 20'', count = 1\<rparr>, \<lparr>group = ''20 to 40'', count = 1\<rparr>,
                        \<lparr>group = ''40 to 60'', count = 0\<rparr>, \<lparr>group = ''> 60'', count = 1\<rparr>],
           averageAge = ToFixed1 (Num 35),
           ageRange = \<lparr>range_min = Num 10, range_max = Num 70\<rparr> \<rparr>"
    unfolding dist total b1 b2 b3 b4 some by (simp add: age_in_def)
  have same: "getAgeDistribution ?some = getAgeDistribution ?perm"
    using R perm by blast
  show ?thesis
    using none some perm empty_report report same by simp
qed

section \<open>The batch persister\<close>

lemma chunks_Nil: "chunks n [] = []"
  by (simp add: chunks.simps)

lemma chunks_Cons: "0 < n \<Longrightarrow> xs \<noteq> [] \<Longrightarrow> chunks n xs = take n xs # chunks n (drop n xs)"
  by (subst chunks.simps) simp

lemma concat_chunks: "0 < n \<Longrightarrow> concat (chunks n xs) = xs"
proof (induction n xs rule: chunks.induct)
  case (1 n xs)
  then show ?case
    by (cases "xs = []") (simp_all add: chunks_Nil chunks_Cons)
qed

lemma chunks_map: "chunks n (map f xs) = map (map f) (chunks n xs)"
proof (induction n xs rule: chunks.induct)
  case (1 n xs)
  show ?case
  proof (cases "n = 0 \<or> xs = []")
    case True
    then show ?thesis by (auto simp: chunks.simps)
  next
    case False
    with 1 show ?thesis
      by (simp add: chunks_Cons take_map drop_map)
  qed
qed

lemma chunks_nonempty: "c \<in> set (chunks n xs) \<Longrightarrow> c \<noteq> [] \<and> length c \<le> n"
proof (induction n xs rule: chunks.induct)
  case (1 n xs)
  show ?case
  proof (cases "n = 0 \<or> xs = []")
    case True
    with 1 show ?thesis by (auto simp: chunks.simps)
  next
    case False
    with 1 show ?thesis
      by (auto simp: chunks_Cons)
  qed
qed

lemma slice_chunk:
  "i < length xs \<Longrightarrow> slice xs (int i) (int i + int n) = take n (drop i xs)"
  by (auto simp: slice_def Let_def min_def)

lemma chunks_2500:
  assumes "length xs = 2500"
  shows "chunks 1000 xs = [take 1000 xs, take 1000 (drop 1000 xs), drop 2000 xs]"
proof -
  have 1: "xs \<noteq> []" "drop 1000 xs \<noteq> []" "drop 2000 xs \<noteq> []"
    using assms by auto
  have "chunks 1000 xs = take 1000 xs # chunks 1000 (drop 1000 xs)"
    using 1 by (simp add: chunks_Cons)
  also have "chunks 1000 (drop 1000 xs) = take 1000 (drop 1000 xs) # chunks 1000 (drop 2000 xs)"
    using 1 by (simp add: chunks_Cons)
  also have "chunks 1000 (drop 2000 xs) = take 1000 (drop 2000 xs) # chunks 1000 (drop 3000 xs)"
    using 1 by (simp add: chunks_Cons)
  also have "chunks 1000 (drop 3000 xs) = []"
    using assms by (simp add: chunks_Nil)
  finally show ?thesis
    using assms by simp
qed

lemma loop_is_insert_chunks:
  "0 < n \<Longrightarrow>
   batchInsertUsers_loop numToString fails pool users (int n) (int i) cnt db
     = Some (insert_chunks numToString fails pool (chunks n (drop i users)) cnt db)"
proof (induction "length users - i" arbitrary: i cnt db rule: less_induct)
  case less
  show ?case
  proof (cases "i < length users")
    case False
    then show ?thesis
      by (subst batchInsertUsers_loop.simps) (simp add: chunks_Nil)
  next
    case True
    then have ne: "drop i users \<noteq> []" by simp
    have rest: "batchInsertUsers_loop numToString fails pool users (int n) (int (i + n)) c d
        = Some (insert_chunks numToString fails pool (chunks n (drop (i + n) users)) c d)" for c d
      using less.hyps [of "i + n" c d] less.prems True by simp
    have ch: "chunks n (drop i users) = take n (drop i users) # chunks n (drop (i + n) users)"
      using chunks_Cons [OF less.prems ne] by (simp add: add.commute)
    show ?thesis
      using True rest
      by (subst batchInsertUsers_loop.simps)
         (auto simp: ch slice_chunk add.commute split: prod.splits sum.splits)
  qed
qed

lemma batchSize_cases:
  "batchSize None = 1000" "batchSize (Some 0) = 1000" "n \<noteq> 0 \<Longrightarrow> batchSize (Some n) = n"
  by (simp_all add: batchSize_def)

lemma insertUserBatch_values_ok:
  "map (prepareUserData numToString) us = map Inr rs \<Longrightarrow>
   insertUserBatch_values numToString us vals = Inr (vals @ rs)"
proof (induction us arbitrary: rs vals)
  case Nil
  then show ?case by simp
next
  case (Cons u us)
  then obtain r rs' where rs: "rs = r # rs'" "prepareUserData numToString u = Inr r"
    "map (prepareUserData numToString) us = map Inr rs'"
    by (cases rs) auto
  with Cons.IH [of rs' "vals @ [r]"] show ?case by simp
qed

lemma insertUserBatch_values_Inr:
  "insertUserBatch_values numToString us vals = Inr out \<Longrightarrow>
   \<exists>rs. out = vals @ rs \<and> map (prepareUserData numToString) us = map Inr rs"
proof (induction us arbitrary: vals)
  case Nil
  then show ?case by simp
next
  case (Cons u us)
  then obtain r where r: "prepareUserData numToString u = Inr r"
    "insertUserBatch_values numToString us (vals @ [r]) = Inr out"
    by (auto split: sum.splits)
  from Cons.IH [OF r(2)] obtain rs where "out = (vals @ [r]) @ rs"
    "map (prepareUserData numToString) us = map Inr rs"
    by blast
  with r(1) show ?case
    by (intro exI [of _ "r # rs"]) simp
qed

text \<open>
  When the pool hands every statement to the same client \<open>c\<close>: one chunk written inside
  the transaction of that client.
\<close>

lemma insertUserBatch_in_transaction:
  assumes "map_of (transactions db) c = Some w"
    and "insertUserBatch numToString fails (\<lambda>k. c) us db = (r, db')"
  shows "committed db' = committed db"
    and "r = Inr n \<Longrightarrow>
           n = length us \<and> \<not> fails (length (issued db)) \<and>
           (\<exists>rs. map (prepareUserData numToString) us = map Inr rs \<and> rs \<noteq> [] \<and>
                 transactions db' = AList.update c (w @ rs) (transactions db) \<and>
                 issued db' = issued db @ [(c, INSERT rs)])"
    and "r = Inl e \<Longrightarrow>
           transactions db' = transactions db \<and>
           (issued db' = issued db \<or> (\<exists>rs. issued db' = issued db @ [(c, INSERT rs)]))"
proof -
  show "committed db' = committed db"
    using assms by (auto simp: insertUserBatch_def split: sum.splits if_splits)
  show "n = length us \<and> \<not> fails (length (issued db)) \<and>
           (\<exists>rs. map (prepareUserData numToString) us = map Inr rs \<and> rs \<noteq> [] \<and>
                 transactions db' = AList.update c (w @ rs) (transactions db) \<and>
                 issued db' = issued db @ [(c, INSERT rs)])"
    if "r = Inr n"
  proof -
    from assms that obtain out where out: "insertUserBatch_values numToString us [] = Inr out"
      "db_query fails (\<lambda>k. c) db (INSERT out) = (Inr n, db')"
      by (auto simp: insertUserBatch_def split: sum.splits)
    from insertUserBatch_values_Inr [OF out(1)]
    have m: "map (prepareUserData numToString) us = map Inr out" by simp
    then have "length us = length out"
      using map_eq_imp_length_eq by blast
    with out(2) assms(1) m show ?thesis
      by (auto split: if_splits)
  qed
  show "transactions db' = transactions db \<and>
        (issued db' = issued db \<or> (\<exists>rs. issued db' = issued db @ [(c, INSERT rs)]))"
    if "r = Inl e"
    using assms that by (auto simp: insertUserBatch_def split: sum.splits if_splits)
qed

lemma insertUserBatch_ok:
  assumes "map_of (transactions db) c = Some w" and "map (prepareUserData numToString) us = map Inr rs"
    and "rs \<noteq> []" and "\<not> fails (length (issued db))"
  shows "insertUserBatch numToString fails (\<lambda>k. c) us db
         = (Inr (length rs),
            db\<lparr>transactions := AList.update c (w @ rs) (transactions db),
               issued := issued db @ [(c, INSERT rs)]\<rparr>)"
  using assms insertUserBatch_values_ok [OF assms(2), of "[]"]
  by (simp add: insertUserBatch_def)

text \<open>The chunks of a batch written inside the transaction of that client.\<close>

lemma insert_chunks_invariant:
  "map_of (transactions db) c = Some w \<Longrightarrow>
   insert_chunks numToString fails (\<lambda>k. c) cs cnt db = (r, db') \<Longrightarrow>
   committed db' = committed db \<and> (\<exists>w'. transactions db' = AList.update c w' (transactions db)) \<and>
   (\<exists>ins. issued db' = issued db @ map (\<lambda>rs. (c, INSERT rs)) ins) \<and>
   (\<forall>n. r = Inr n \<longrightarrow> n = cnt + length (concat cs))"
proof (induction cs arbitrary: cnt db w)
  case Nil
  then have "transactions db' = AList.update c w (transactions db)"
    by (simp add: update_triv)
  with Nil show ?case
    by (auto intro: exI [of _ "[]"])
next
  case (Cons ch cs)
  obtain r1 db1 where step: "insertUserBatch numToString fails (\<lambda>k. c) ch db = (r1, db1)"
    by (cases "insertUserBatch numToString fails (\<lambda>k. c) ch db")
  note facts = insertUserBatch_in_transaction [OF Cons.prems(1) step]
  show ?case
  proof (cases r1)
    case (Inl e)
    with step Cons.prems(2) have "r = Inl e" "db' = db1" by auto
    moreover have "transactions db = AList.update c w (transactions db)"
      using Cons.prems(1) by (simp add: update_triv)
    ultimately show ?thesis
      using facts(1) facts(3) [OF Inl]
      by (auto intro: exI [of _ "[]"] exI [of _ "[x]" for x])
  next
    case (Inr n)
    from facts(2) [OF Inr] obtain rs where rs: "n = length ch"
      "transactions db1 = AList.update c (w @ rs) (transactions db)"
      "issued db1 = issued db @ [(c, INSERT rs)]"
      by blast
    have tx1: "map_of (transactions db1) c = Some (w @ rs)"
      by (simp add: rs(2) update_conv')
    from step Inr Cons.prems(2)
    have run: "insert_chunks numToString fails (\<lambda>k. c) cs (cnt + n) db1 = (r, db')"
      by simp
    from Cons.IH [OF tx1 run] obtain ins w' where
      "committed db' = committed db1" "transactions db' = AList.update c w' (transactions db1)"
      "issued db' = issued db1 @ map (\<lambda>rs. (c, INSERT rs)) ins"
      "\<forall>m. r = Inr m \<longrightarrow> m = cnt + n + length (concat cs)"
      by blast
    with facts(1) rs show ?thesis
      by (auto simp: update_last intro: exI [of _ "rs # ins"])
  qed
qed

lemma insert_chunks_ok:
  "map_of (transactions db) c = Some w \<Longrightarrow>
   map (map (prepareUserData numToString)) cs = map (map Inr) rcs \<Longrightarrow>
   [] \<notin> set rcs \<Longrightarrow> (\<And>j. j < length cs \<Longrightarrow> \<not> fails (length (issued db) + j)) \<Longrightarrow>
   insert_chunks numToString fails (\<lambda>k. c) cs cnt db
     = (Inr (cnt + length (concat rcs)),
        db\<lparr>transactions := AList.update c (w @ concat rcs) (transactions db),
           issued := issued db @ map (\<lambda>rs. (c, INSERT rs)) rcs\<rparr>)"
proof (induction cs arbitrary: rcs cnt db w)
  case Nil
  then show ?case by (simp add: update_triv)
next
  case (Cons ch cs)
  from Cons.prems(2) obtain rc rcs' where rcs: "rcs = rc # rcs'"
    "map (prepareUserData numToString) ch = map Inr rc"
    "map (map (prepareUserData numToString)) cs = map (map Inr) rcs'"
    by (cases rcs) auto
  from Cons.prems(3) rcs have ne: "rc \<noteq> []" "[] \<notin> set rcs'" by auto
  from Cons.prems(4) [of 0] have nofail: "\<not> fails (length (issued db))" by simp
  let ?db1 = "db\<lparr>transactions := AList.update c (w @ rc) (transactions db),
                  issued := issued db @ [(c, INSERT rc)]\<rparr>"
  have step: "insertUserBatch numToString fails (\<lambda>k. c) ch db = (Inr (length rc), ?db1)"
    by (rule insertUserBatch_ok [where fails = fails]) (fact Cons.prems(1) rcs(2) ne(1) nofail)+
  have tx1: "map_of (transactions ?db1) c = Some (w @ rc)"
    by (simp add: update_conv')
  have later: "\<not> fails (length (issued ?db1) + j)" if "j < length cs" for j
    using Cons.prems(4) [of "Suc j"] that by simp
  have "insert_chunks numToString fails (\<lambda>k. c) cs (cnt + length rc) ?db1
     = (Inr (cnt + length rc + length (concat rcs')),
        ?db1\<lparr>transactions := AList.update c ((w @ rc) @ concat rcs') (transactions ?db1),
              issued := issued ?db1 @ map (\<lambda>rs. (c, INSERT rs)) rcs'\<rparr>)"
    using Cons.IH [of ?db1 "w @ rc" rcs' "cnt + length rc", OF tx1 rcs(3) ne(2) later] by simp
  with step rcs show ?case by (simp add: update_last)
qed

lemma insert_chunks_fault:
  "map_of (transactions db) c = Some w \<Longrightarrow> j < length cs \<Longrightarrow> fails (length (issued db) + j) \<Longrightarrow>
   \<exists>e db'. insert_chunks numToString fails (\<lambda>k. c) cs cnt db = (Inl e, db')"
proof (induction cs arbitrary: j cnt db w)
  case Nil
  then show ?case by simp
next
  case (Cons ch cs)
  obtain r1 db1 where step: "insertUserBatch numToString fails (\<lambda>k. c) ch db = (r1, db1)"
    by (cases "insertUserBatch numToString fails (\<lambda>k. c) ch db")
  note facts = insertUserBatch_in_transaction [OF Cons.prems(1) step]
  show ?case
  proof (cases r1)
    case (Inl e)
    with step show ?thesis by simp
  next
    case (Inr n)
    from facts(2) [OF Inr] obtain rs where rs: "\<not> fails (length (issued db))"
      "transactions db1 = AList.update c (w @ rs) (transactions db)"
      "issued db1 = issued db @ [(c, INSERT rs)]"
      by blast
    have tx1: "map_of (transactions db1) c = Some (w @ rs)"
      by (simp add: rs(2) update_conv')
    from rs Cons.prems(3) obtain j' where j': "j = Suc j'"
      by (cases j) auto
    with Cons.prems rs have "j' < length cs" "fails (length (issued db1) + j')"
      by auto
    from Cons.IH [OF tx1 this, of "cnt + n"] step Inr show ?thesis
      by simp
  qed
qed

lemma insertUserBatch_more:
  "insertUserBatch numToString fails pool us db = (r, db') \<Longrightarrow> database.more db' = database.more db"
  by (auto simp: insertUserBatch_def Let_def split: sum.splits if_splits option.splits)

lemma insert_chunks_frame:
  "insert_chunks numToString fails pool cs cnt db = (r, db') \<Longrightarrow> database.more db' = database.more db"
proof (induction cs arbitrary: cnt db)
  case Nil
  then show ?case by simp
next
  case (Cons ch cs)
  obtain r1 db1 where step: "insertUserBatch numToString fails pool ch db = (r1, db1)"
    by (cases "insertUserBatch numToString fails pool ch db")
  show ?case
  proof (cases r1)
    case (Inl e)
    with step Cons.prems insertUserBatch_more [OF step] show ?thesis by simp
  next
    case (Inr n)
    with step Cons.prems have "insert_chunks numToString fails pool cs (cnt + n) db1 = (r, db')"
      by simp
    from Cons.IH [OF this] insertUserBatch_more [OF step] show ?thesis by simp
  qed
qed

lemma insert_chunks_Inr:
  "map_of (transactions db) c = Some w \<Longrightarrow>
   insert_chunks numToString fails (\<lambda>k. c) cs cnt db = (Inr n, db') \<Longrightarrow>
   \<exists>rcs. map (map (prepareUserData numToString)) cs = map (map Inr) rcs \<and> [] \<notin> set rcs \<and>
         (\<forall>j. j < length cs \<longrightarrow> \<not> fails (length (issued db) + j))"
proof (induction cs arbitrary: cnt db w)
  case Nil
  then show ?case by simp
next
  case (Cons ch cs)
  obtain r1 db1 where step: "insertUserBatch numToString fails (\<lambda>k. c) ch db = (r1, db1)"
    by (cases "insertUserBatch numToString fails (\<lambda>k. c) ch db")
  with Cons.prems(2) obtain m where m: "r1 = Inr m"
    by (cases r1) auto
  from insertUserBatch_in_transaction(2) [OF Cons.prems(1) step m] obtain rs where
    rs: "\<not> fails (length (issued db))" "map (prepareUserData numToString) ch = map Inr rs"
      "rs \<noteq> []" "transactions db1 = AList.update c (w @ rs) (transactions db)"
      "issued db1 = issued db @ [(c, INSERT rs)]"
    by blast
  have tx1: "map_of (transactions db1) c = Some (w @ rs)"
    by (simp add: rs(4) update_conv')
  from step m Cons.prems(2)
  have run: "insert_chunks numToString fails (\<lambda>k. c) cs (cnt + m) db1 = (Inr n, db')"
    by simp
  from Cons.IH [OF tx1 run] obtain rcs where
    rcs: "map (map (prepareUserData numToString)) cs = map (map Inr) rcs" "[] \<notin> set rcs"
      "\<forall>j. j < length cs \<longrightarrow> \<not> fails (length (issued db1) + j)"
    by blast
  have "\<not> fails (length (issued db) + j)" if "j < length (ch # cs)" for j
    using that rs(1) rs(5) rcs(3) by (cases j) auto
  with rs rcs show ?case
    by (intro exI [of _ "rs # rcs"]) simp
qed

lemma chunks_rows:
  assumes "0 < n" and "map (map f) (chunks n us) = map (map Inr) rcs"
  shows "map f us = map Inr (concat rcs)" and "rcs = chunks n (concat rcs)"
proof -
  have "map f us = concat (map (map f) (chunks n us))"
    using concat_chunks [OF assms(1), of us] by (simp flip: map_concat)
  also have "\<dots> = map Inr (concat rcs)"
    by (simp add: assms(2) map_concat)
  finally show rows: "map f us = map Inr (concat rcs)" .
  have "map (map Inr) rcs = chunks n (map f us)"
    by (simp add: chunks_map assms(2))
  also have "\<dots> = map (map Inr) (chunks n (concat rcs))"
    by (simp add: rows chunks_map)
  finally show "rcs = chunks n (concat rcs)"
    by (simp add: inj_map_eq_map inj_mapI)
qed

lemma batchInsertUsers_unfold:
  assumes "0 < batchSize BATCH_SIZE" and "map_of (transactions db) c = None"
  shows "batchInsertUsers numToString fails (\<lambda>k. c) BATCH_SIZE users db =
     Some (case insert_chunks numToString fails (\<lambda>k. c) (chunks (nat (batchSize BATCH_SIZE)) users) 0
                  (begun c db) of
             (Inl e, db2) \<Rightarrow>
               (Inl e, db2\<lparr>transactions := AList.delete c (transactions db2),
                           issued := issued db2 @ [(c, ROLLBACK)]\<rparr>)
           | (Inr n, db2) \<Rightarrow>
               (Inr n, db2\<lparr>committed := committed db2 @
                               (case map_of (transactions db2) c of None \<Rightarrow> [] | Some rows \<Rightarrow> rows),
                             transactions := AList.delete c (transactions db2),
                             issued := issued db2 @ [(c, COMMIT)]\<rparr>))"
proof -
  have "batchInsertUsers_loop numToString fails (\<lambda>k. c) users (batchSize BATCH_SIZE) 0 0 d
      = Some (insert_chunks numToString fails (\<lambda>k. c) (chunks (nat (batchSize BATCH_SIZE)) users) 0 d)" for d
    using loop_is_insert_chunks [of "nat (batchSize BATCH_SIZE)" numToString fails "\<lambda>k. c" users 0 0 d] assms(1)
    by simp
  then show ?thesis
    using assms(2)
    by (simp add: batchInsertUsers_def catch_rollback_def Let_def split: prod.splits sum.splits)
qed

lemma delete_begun:
  "map_of ts c = None \<Longrightarrow> AList.delete c (AList.update c w' (AList.update c [] ts)) = ts"
  by (simp add: delete_update_same delete_id map_of_eq_None_iff)

lemma batch_failure:
  assumes "0 < batchSize BATCH_SIZE" and "map_of (transactions db) c = None"
    and "insert_chunks numToString fails (\<lambda>k. c) (chunks (nat (batchSize BATCH_SIZE)) users) 0 (begun c db)
           = (Inl e, db2)"
  shows "\<exists>ins. batchInsertUsers numToString fails (\<lambda>k. c) BATCH_SIZE users db =
           Some (Inl e, db\<lparr>issued := issued db @ [(c, BEGIN)] @ map (\<lambda>rs. (c, INSERT rs)) ins
                                         @ [(c, ROLLBACK)]\<rparr>)"
proof -
  have tx: "map_of (transactions (begun c db)) c = Some []"
    by (simp add: update_conv')
  from insert_chunks_invariant [OF tx assms(3)] obtain w' ins where
    inv: "committed db2 = committed db"
      "transactions db2 = AList.update c w' (AList.update c [] (transactions db))"
      "issued db2 = issued db @ [(c, BEGIN)] @ map (\<lambda>rs. (c, INSERT rs)) ins"
    by auto
  have "db2\<lparr>transactions := AList.delete c (transactions db2), issued := issued db2 @ [(c, ROLLBACK)]\<rparr>
      = db\<lparr>issued := issued db @ [(c, BEGIN)] @ map (\<lambda>rs. (c, INSERT rs)) ins @ [(c, ROLLBACK)]\<rparr>"
    using inv insert_chunks_frame [OF assms(3)] delete_begun [OF assms(2)] by simp
  then show ?thesis
    using batchInsertUsers_unfold [OF assms(1,2), of numToString fails users] assms(3)
    by (intro exI [of _ ins]) simp
qed

lemma batch_success:
  assumes "0 < batchSize BATCH_SIZE" and "map_of (transactions db) c = None"
    and "insert_chunks numToString fails (\<lambda>k. c) (chunks (nat (batchSize BATCH_SIZE)) users) 0 (begun c db)
           = (Inr n, db2)"
  shows "\<exists>rows. map (prepareUserData numToString) users = map Inr rows \<and> n = length users \<and>
           batchInsertUsers numToString fails (\<lambda>k. c) BATCH_SIZE users db =
             Some (Inr n, db\<lparr>committed := committed db @ rows,
                              issued := issued db @ [(c, BEGIN)]
                                 @ map (\<lambda>rs. (c, INSERT rs)) (chunks (nat (batchSize BATCH_SIZE)) rows)
                                 @ [(c, COMMIT)]\<rparr>) \<and>
           (\<forall>j. j < length (chunks (nat (batchSize BATCH_SIZE)) users) \<longrightarrow>
                \<not> fails (length (issued db) + 1 + j))"
proof -
  let ?b = "nat (batchSize BATCH_SIZE)"
  have b: "0 < ?b" using assms(1) by simp
  have tx: "map_of (transactions (begun c db)) c = Some []"
    by (simp add: update_conv')
  from insert_chunks_Inr [OF tx assms(3)] obtain rcs where
    rcs: "map (map (prepareUserData numToString)) (chunks ?b users) = map (map Inr) rcs"
      "[] \<notin> set rcs"
      "\<forall>j. j < length (chunks ?b users) \<longrightarrow> \<not> fails (length (issued (begun c db)) + j)"
    by auto
  note rows = chunks_rows [OF b rcs(1)]
  have len: "length users = length (concat rcs)"
    using rows(1) map_eq_imp_length_eq by blast
  have "insert_chunks numToString fails (\<lambda>k. c) (chunks ?b users) 0 (begun c db)
      = (Inr (0 + length (concat rcs)),
         (begun c db)\<lparr>transactions := AList.update c ([] @ concat rcs) (transactions (begun c db)),
                       issued := issued (begun c db) @ map (\<lambda>rs. (c, INSERT rs)) rcs\<rparr>)"
    using rcs(3) by (intro insert_chunks_ok [OF tx rcs(1) rcs(2)]) auto
  with assms(3) have n: "n = length (concat rcs)"
    and db2: "db2 = (begun c db)\<lparr>transactions := AList.update c (concat rcs) (transactions (begun c db)),
                                  issued := issued (begun c db) @ map (\<lambda>rs. (c, INSERT rs)) rcs\<rparr>"
    by simp_all
  have "batchInsertUsers numToString fails (\<lambda>k. c) BATCH_SIZE users db =
      Some (Inr n, db\<lparr>committed := committed db @ concat rcs,
                       issued := issued db @ [(c, BEGIN)] @ map (\<lambda>rs. (c, INSERT rs)) rcs
                                   @ [(c, COMMIT)]\<rparr>)"
    using batchInsertUsers_unfold [OF assms(1,2), of numToString fails users] assms(3)
      delete_begun [OF assms(2)]
    by (simp add: db2 update_conv' update_last)
  with rows n len rcs(3) show ?thesis
    by (intro exI [of _ "concat rcs"]) auto
qed

lemma batch_no_fault:
  assumes "0 < batchSize BATCH_SIZE" and "map_of (transactions db) c = None"
    and "map (prepareUserData numToString) users = map Inr rows"
    and "\<And>j. j < length (chunks (nat (batchSize BATCH_SIZE)) users) \<Longrightarrow>
           \<not> fails (length (issued db) + 1 + j)"
  shows "\<exists>db2. insert_chunks numToString fails (\<lambda>k. c) (chunks (nat (batchSize BATCH_SIZE)) users) 0
                 (begun c db) = (Inr (length users), db2)"
proof -
  let ?b = "nat (batchSize BATCH_SIZE)"
  have tx: "map_of (transactions (begun c db)) c = Some []"
    by (simp add: update_conv')
  have m: "map (map (prepareUserData numToString)) (chunks ?b users) = map (map Inr) (chunks ?b rows)"
    by (simp only: assms(3) flip: chunks_map)
  have ne: "[] \<notin> set (chunks ?b rows)"
    using chunks_nonempty [of "[]" ?b rows] by auto
  have len: "length users = length rows"
    using assms(3) map_eq_imp_length_eq by blast
  have "insert_chunks numToString fails (\<lambda>k. c) (chunks ?b users) 0 (begun c db)
      = (Inr (0 + length (concat (chunks ?b rows))),
         (begun c db)\<lparr>transactions := AList.update c ([] @ concat (chunks ?b rows)) (transactions (begun c db)),
                       issued := issued (begun c db) @ map (\<lambda>rs. (c, INSERT rs)) (chunks ?b rows)\<rparr>)"
    using assms(4) by (intro insert_chunks_ok [OF tx m ne]) auto
  then show ?thesis
    using assms(1) len by (simp add: concat_chunks)
qed

text \<open>
  What \<^verbatim>\<open>batchInsertUsers\<close> does when the pool hands every statement of the call to the
  same client \<open>c\<close>, on which no transaction is open, and the batch size is positive. The
  call returns. The statements it sends are one BEGIN, then INSERTs only, then one COMMIT or
  one ROLLBACK, and no transaction is left open. When it fails, by a rejected INSERT or by a
  projection that throws, the last statement is ROLLBACK and the committed rows are those
  from before the call. When it succeeds it returns the number of users, the INSERTs are
  those of the consecutive chunks of the projected rows (each of the batch size, the last
  possibly shorter), the last statement is COMMIT and the committed rows are the old ones
  followed by all the rows of the batch. It fails as soon as the fault oracle rejects the
  INSERT of one of the chunks, and it succeeds when every projection succeeds and no INSERT
  is rejected. The batch size is the configured one, 1000 when none is configured or when it
  is 0. For 2500 users and batch size 1000 there are 3 chunks; a successful run sends
  exactly three INSERTs, of 1000, 1000 and 500 rows, between BEGIN and COMMIT, and a fault
  injected in the third chunk leaves the committed rows unchanged.
\<close>

lemma batchInsertUsers_on_one_client:
  assumes pos: "0 < batchSize BATCH_SIZE" and idle: "map_of (transactions db) c = None"
  shows "\<exists>r db'. batchInsertUsers numToString fails (\<lambda>k. c) BATCH_SIZE users db = Some (r, db')
      \<and> transactions db' = transactions db
      \<and> (\<exists>ins. issued db' = issued db @ [(c, BEGIN)] @ map (\<lambda>rs. (c, INSERT rs)) ins
                                @ [(c, if isl r then ROLLBACK else COMMIT)])
      \<and> (isl r \<longrightarrow> committed db' = committed db)
      \<and> (\<forall>n. r = Inr n \<longrightarrow>
            n = length users \<and>
            (\<exists>rows. map (prepareUserData numToString) users = map Inr rows \<and>
                    committed db' = committed db @ rows \<and>
                    issued db' = issued db @ [(c, BEGIN)]
                       @ map (\<lambda>rs. (c, INSERT rs)) (chunks (nat (batchSize BATCH_SIZE)) rows)
                       @ [(c, COMMIT)]))
      \<and> (\<forall>j. j < length (chunks (nat (batchSize BATCH_SIZE)) users) \<and>
               fails (length (issued db) + 1 + j) \<longrightarrow> isl r)
      \<and> ((\<exists>rows. map (prepareUserData numToString) users = map Inr rows) \<and>
          (\<forall>j. j < length (chunks (nat (batchSize BATCH_SIZE)) users) \<longrightarrow>
               \<not> fails (length (issued db) + 1 + j)) \<longrightarrow> r = Inr (length users))
      \<and> batchSize BATCH_SIZE =
          (case BATCH_SIZE of None \<Rightarrow> 1000 | Some n \<Rightarrow> if n = 0 then 1000 else n)
      \<and> (length users = 2500 \<and> batchSize BATCH_SIZE = 1000 \<longrightarrow>
            length (chunks 1000 users) = 3
            \<and> (\<forall>n. r = Inr n \<longrightarrow>
                  (\<exists>r1 r2 r3. issued db' = issued db
                        @ [(c, BEGIN), (c, INSERT r1), (c, INSERT r2), (c, INSERT r3), (c, COMMIT)]
                      \<and> length r1 = 1000 \<and> length r2 = 1000 \<and> length r3 = 500))
            \<and> (fails (length (issued db) + 3) \<longrightarrow> isl r \<and> committed db' = committed db))"
proof -
  let ?b = "nat (batchSize BATCH_SIZE)"
  obtain r0 db2 where run:
    "insert_chunks numToString fails (\<lambda>k. c) (chunks ?b users) 0 (begun c db) = (r0, db2)"
    by (cases "insert_chunks numToString fails (\<lambda>k. c) (chunks ?b users) 0 (begun c db)")
  have three: "length (chunks 1000 users) = 3" if "length users = 2500"
    using chunks_2500 [OF that] by simp
  have size: "batchSize BATCH_SIZE =
          (case BATCH_SIZE of None \<Rightarrow> 1000 | Some n \<Rightarrow> if n = 0 then 1000 else n)"
    by (simp add: batchSize_def)
  show ?thesis
  proof (cases r0)
    case (Inl e)
    from batch_failure [OF pos idle run [unfolded Inl]] obtain ins where
      res: "batchInsertUsers numToString fails (\<lambda>k. c) BATCH_SIZE users db =
           Some (Inl e, db\<lparr>issued := issued db @ [(c, BEGIN)] @ map (\<lambda>rs. (c, INSERT rs)) ins
                                         @ [(c, ROLLBACK)]\<rparr>)"
      by blast
    have no_success: "\<not> ((\<exists>rows. map (prepareUserData numToString) users = map Inr rows) \<and>
          (\<forall>j. j < length (chunks ?b users) \<longrightarrow> \<not> fails (length (issued db) + 1 + j)))"
    proof
      assume "(\<exists>rows. map (prepareUserData numToString) users = map Inr rows) \<and>
          (\<forall>j. j < length (chunks ?b users) \<longrightarrow> \<not> fails (length (issued db) + 1 + j))"
      then obtain rows where rows: "map (prepareUserData numToString) users = map Inr rows"
        and quiet: "\<And>j. j < length (chunks ?b users) \<Longrightarrow> \<not> fails (length (issued db) + 1 + j)"
        by blast
      have "\<exists>db2. insert_chunks numToString fails (\<lambda>k. c) (chunks ?b users) 0 (begun c db)
           = (Inr (length users), db2)"
        by (rule batch_no_fault [where fails = fails and rows = rows]) (fact pos idle rows | rule quiet)+
      with run Inl show False
        by simp
    qed
    show ?thesis
      apply (rule exI [of _ "Inl e"])
      apply (rule exI [of _ "db\<lparr>issued := issued db @ [(c, BEGIN)] @ map (\<lambda>rs. (c, INSERT rs)) ins
                                         @ [(c, ROLLBACK)]\<rparr>"])
      using res no_success three size by auto
  next
    case (Inr n)
    from batch_success [OF pos idle run [unfolded Inr]] obtain rows where
      rows: "map (prepareUserData numToString) users = map Inr rows" "n = length users"
      and res: "batchInsertUsers numToString fails (\<lambda>k. c) BATCH_SIZE users db =
             Some (Inr n, db\<lparr>committed := committed db @ rows,
                              issued := issued db @ [(c, BEGIN)]
                                 @ map (\<lambda>rs. (c, INSERT rs)) (chunks ?b rows) @ [(c, COMMIT)]\<rparr>)"
      and nofault: "\<forall>j. j < length (chunks ?b users) \<longrightarrow> \<not> fails (length (issued db) + 1 + j)"
      by blast
    have len: "length rows = length users"
      using rows(1) map_eq_imp_length_eq by metis
    have example: "length (chunks 1000 users) = 3
            \<and> (\<exists>r1 r2 r3. issued db @ [(c, BEGIN)] @ map (\<lambda>rs. (c, INSERT rs)) (chunks ?b rows)
                               @ [(c, COMMIT)]
                      = issued db @ [(c, BEGIN), (c, INSERT r1), (c, INSERT r2), (c, INSERT r3), (c, COMMIT)]
                      \<and> length r1 = 1000 \<and> length r2 = 1000 \<and> length r3 = 500)
            \<and> \<not> fails (length (issued db) + 3)"
      if h: "length users = 2500 \<and> batchSize BATCH_SIZE = 1000"
    proof (intro conjI)
      show "length (chunks 1000 users) = 3"
        using three h by simp
      have "chunks ?b rows = [take 1000 rows, take 1000 (drop 1000 rows), drop 2000 rows]"
        using chunks_2500 [of rows] len h by simp
      then show "\<exists>r1 r2 r3. issued db @ [(c, BEGIN)] @ map (\<lambda>rs. (c, INSERT rs)) (chunks ?b rows)
                               @ [(c, COMMIT)]
                      = issued db @ [(c, BEGIN), (c, INSERT r1), (c, INSERT r2), (c, INSERT r3), (c, COMMIT)]
                      \<and> length r1 = 1000 \<and> length r2 = 1000 \<and> length r3 = 500"
        using len h
        by (intro exI [of _ "take 1000 rows"] exI [of _ "take 1000 (drop 1000 rows)"]
              exI [of _ "drop 2000 rows"]) simp
      have "\<not> fails (length (issued db) + 1 + 2)"
      proof -
        have "(2::nat) < length (chunks ?b users)"
          using three h by simp
        with nofault show ?thesis
          by blast
      qed
      then show "\<not> fails (length (issued db) + 3)"
        by (simp add: eval_nat_numeral)
    qed
    show ?thesis
      apply (rule exI [of _ "Inr n"])
      apply (rule exI [of _ "db\<lparr>committed := committed db @ rows,
                              issued := issued db @ [(c, BEGIN)]
                                 @ map (\<lambda>rs. (c, INSERT rs)) (chunks ?b rows) @ [(c, COMMIT)]\<rparr>"])
      using res rows nofault example size by auto
  qed
qed

text \<open>
  C1. The all-or-nothing property fails on the code: \<^verbatim>\<open>batchInsertUsers\<close> sends BEGIN, the
  INSERTs and ROLLBACK with \<^verbatim>\<open>db.query\<close>, each to the client the pool picks for it, and not
  to one client of its own. Two users, batch size 1, the second INSERT rejected by the store
  (the age \<^verbatim>\<open>abc\<close> of the second user is no integer): when the pool serves BEGIN on one
  client and the statements after it on another, the first INSERT is outside the
  transaction and commits at once, the ROLLBACK finds nothing to undo, and the call fails
  with the row of the first user committed (and leaves the transaction of the first client
  open). The same call served by one client throughout commits nothing. The example of the
  specification, 2500 users in chunks of 1000 with the third INSERT rejected, served in the
  same way, ends with the 2000 rows of the first two chunks committed.
\<close>

theorem batchInsertUsers_partial_commit:
  "batchInsertUsers (\<lambda>n. []) (\<lambda>k. k = 2) (\<lambda>k. if k = 0 then 0 else 1) (Some 1)
     [[(''name'', JObject [(''firstName'', JString ''Jane''), (''lastName'', JString ''Doe'')]),
       (''age'', JNumber (Num 30))],
      [(''name'', JObject [(''firstName'', JString ''John''), (''lastName'', JString ''Roe'')]),
       (''age'', JString ''abc'')]]
     \<lparr>committed = [], transactions = [], issued = []\<rparr>
   = Some (Inl QueryError,
       \<lparr>committed = [\<lparr>name = ''Jane Doe'', age = JNumber (Num 30), address = None, additionalInfo = None\<rparr>],
        transactions = [(0, [])],
        issued =
          [(0, BEGIN),
           (1, INSERT [\<lparr>name = ''Jane Doe'', age = JNumber (Num 30), address = None, additionalInfo = None\<rparr>]),
           (1, INSERT [\<lparr>name = ''John Roe'', age = JString ''abc'', address = None, additionalInfo = None\<rparr>]),
           (1, ROLLBACK)]\<rparr>)
   \<and> batchInsertUsers (\<lambda>n. []) (\<lambda>k. k = 2) (\<lambda>k. 0) (Some 1)
     [[(''name'', JObject [(''firstName'', JString ''Jane''), (''lastName'', JString ''Doe'')]),
       (''age'', JNumber (Num 30))],
      [(''name'', JObject [(''firstName'', JString ''John''), (''lastName'', JString ''Roe'')]),
       (''age'', JString ''abc'')]]
     \<lparr>committed = [], transactions = [], issued = []\<rparr>
   = Some (Inl QueryError,
       \<lparr>committed = [],
        transactions = [],
        issued =
          [(0, BEGIN),
           (0, INSERT [\<lparr>name = ''Jane Doe'', age = JNumber (Num 30), address = None, additionalInfo = None\<rparr>]),
           (0, INSERT [\<lparr>name = ''John Roe'', age = JString ''abc'', address = None, additionalInfo = None\<rparr>]),
           (0, ROLLBACK)]\<rparr>)
   \<and> (\<exists>db' r1 r2 r3.
        batchInsertUsers (\<lambda>n. []) (\<lambda>k. k = 3) (\<lambda>k. if k = 0 then 0 else 1) (Some 1000)
          (replicate 2500
             [(''name'', JObject [(''firstName'', JString ''Jane''), (''lastName'', JString ''Doe'')]),
              (''age'', JNumber (Num 30))])
          \<lparr>committed = [], transactions = [], issued = []\<rparr>
          = Some (Inl QueryError, db')
        \<and> length (committed db') = 2000
        \<and> issued db' = [(0, BEGIN), (1, INSERT r1), (1, INSERT r2), (1, INSERT r3), (1, ROLLBACK)])"
proof -
  let ?jane = "[(''name'', JObject [(''firstName'', JString ''Jane''), (''lastName'', JString ''Doe'')]),
                (''age'', JNumber (Num 30))]"
  let ?john = "[(''name'', JObject [(''firstName'', JString ''John''), (''lastName'', JString ''Roe'')]),
                (''age'', JString ''abc'')]"
  have size: "batchSize (Some 1) = 1"
    by (simp add: batchSize_def)
  have ch: "chunks 1 [?jane, ?john] = [[?jane], [?john]]"
    by (simp add: chunks_Cons chunks_Nil)
  have loop: "batchInsertUsers_loop (\<lambda>n. []) (\<lambda>k. k = 2) pool [?jane, ?john] 1 0 0 d
      = Some (insert_chunks (\<lambda>n. []) (\<lambda>k. k = 2) pool [[?jane], [?john]] 0 d)" for pool d
    using loop_is_insert_chunks [of 1 "\<lambda>n. []" "\<lambda>k. k = 2" pool "[?jane, ?john]" 0 0 d] ch
    by simp
  have rows:
    "prepareUserData (\<lambda>n. []) ?jane
       = Inr \<lparr>name = ''Jane Doe'', age = JNumber (Num 30), address = None, additionalInfo = None\<rparr>"
    "prepareUserData (\<lambda>n. []) ?john
       = Inr \<lparr>name = ''John Roe'', age = JString ''abc'', address = None, additionalInfo = None\<rparr>"
    by code_simp+
  let ?row = "\<lparr>name = ''Jane Doe'', age = JNumber (Num 30), address = None, additionalInfo = None\<rparr>"
  have size': "batchSize (Some 1000) = 1000"
    by (simp add: batchSize_def)
  have ch': "chunks 1000 (replicate 2500 ?jane)
      = [replicate 1000 ?jane, replicate 1000 ?jane, replicate 500 ?jane]"
    using chunks_2500 [of "replicate 2500 ?jane"] by simp
  have loop': "batchInsertUsers_loop (\<lambda>n. []) (\<lambda>k. k = 3) pool (replicate 2500 ?jane) 1000 0 0 d
      = Some (insert_chunks (\<lambda>n. []) (\<lambda>k. k = 3) pool
                [replicate 1000 ?jane, replicate 1000 ?jane, replicate 500 ?jane] 0 d)" for pool d
    using loop_is_insert_chunks [of 1000 "\<lambda>n. []" "\<lambda>k. k = 3" pool "replicate 2500 ?jane" 0 0 d] ch'
    by simp
  have vals: "insertUserBatch_values (\<lambda>n. []) (replicate n ?jane) [] = Inr (replicate n ?row)" for n
    using insertUserBatch_values_ok [of "\<lambda>n. []" "replicate n ?jane" "replicate n ?row" "[]"] rows(1)
    by simp
  have small: "batchInsertUsers (\<lambda>n. []) (\<lambda>k. k = 2) (\<lambda>k. if k = 0 then 0 else 1) (Some 1) [?jane, ?john]
       \<lparr>committed = [], transactions = [], issued = []\<rparr>
     = Some (Inl QueryError,
         \<lparr>committed = [?row],
          transactions = [(0, [])],
          issued =
            [(0, BEGIN), (1, INSERT [?row]),
             (1, INSERT [\<lparr>name = ''John Roe'', age = JString ''abc'', address = None, additionalInfo = None\<rparr>]),
             (1, ROLLBACK)]\<rparr>)"
    by (simp add: batchInsertUsers_def size loop insertUserBatch_def rows catch_rollback_def Let_def)
  have same: "batchInsertUsers (\<lambda>n. []) (\<lambda>k. k = 2) (\<lambda>k. 0) (Some 1) [?jane, ?john]
       \<lparr>committed = [], transactions = [], issued = []\<rparr>
     = Some (Inl QueryError,
         \<lparr>committed = [],
          transactions = [],
          issued =
            [(0, BEGIN), (0, INSERT [?row]),
             (0, INSERT [\<lparr>name = ''John Roe'', age = JString ''abc'', address = None, additionalInfo = None\<rparr>]),
             (0, ROLLBACK)]\<rparr>)"
    by (simp add: batchInsertUsers_def size loop insertUserBatch_def rows catch_rollback_def Let_def)
  have large: "batchInsertUsers (\<lambda>n. []) (\<lambda>k. k = 3) (\<lambda>k. if k = 0 then 0 else 1) (Some 1000)
          (replicate 2500 ?jane) \<lparr>committed = [], transactions = [], issued = []\<rparr>
     = Some (Inl QueryError,
         \<lparr>committed = replicate 1000 ?row @ replicate 1000 ?row,
          transactions = [(0, [])],
          issued = [(0, BEGIN), (1, INSERT (replicate 1000 ?row)), (1, INSERT (replicate 1000 ?row)),
                    (1, INSERT (replicate 500 ?row)), (1, ROLLBACK)]\<rparr>)"
    by (simp add: batchInsertUsers_def size' loop' insertUserBatch_def vals catch_rollback_def Let_def)
  show ?thesis
    using small same large by simp
qed

end
